theory Spec2Isabelle
  imports Main "HOL-Library.Word"
begin

section \<open>The pull consumer of jsv2/jetstream/consumer.go\<close>

text \<open>
  The development follows \<^verbatim>\<open>src/jsv2/jetstream/consumer.go\<close>: the request
  record, the consumer handle with its mutex and streaming flag, the batch fetch
  primitive \<^verbatim>\<open>fetch\<close>, the one-shot \<^verbatim>\<open>Next\<close> and the two goroutines of
  \<^verbatim>\<open>Stream\<close>.

  Go's \<^verbatim>\<open>int\<close> (on 64-bit targets) and \<^verbatim>\<open>time.Duration\<close> (an \<^verbatim>\<open>int64\<close> count of
  nanoseconds) are 64-bit words read with \<open>sint\<close>; arithmetic on them wraps.
\<close>

subsection \<open>Errors\<close>

text \<open>
  The sentinel errors the file names, the two errors a context reports when it is
  done, any other transport error, and \<^verbatim>\<open>fmt.Errorf("%w: ...")\<close> as \<open>Wrapf\<close>.
  \<open>errors_Is\<close> is \<^verbatim>\<open>errors.Is\<close>: the target is the error itself or is found along
  its chain of wrapped errors.
\<close>

datatype error =
    ErrNoMessages
  | ErrTimeout
  | ErrInvalidArg
  | ErrNoHeartbeat
  | ErrConsumerHasActiveSubscription
  | ErrHandlerRequired
  | DeadlineExceeded
  | Canceled
  | TransportError string
  | Wrapf error string

fun errors_Is :: "error \<Rightarrow> error \<Rightarrow> bool" where
  "errors_Is (Wrapf e m) t = (Wrapf e m = t \<or> errors_Is e t)"
| "errors_Is e t = (e = t)"

subsection \<open>Data\<close>

type_synonym duration = "64 word"
type_synonym goint = "64 word"

definition Millisecond :: duration where
  "Millisecond = 1000000"

definition Second :: duration where
  "Second = 1000000000"

record pullRequest =
  Expires :: duration
  Batch :: goint
  MaxBytes :: goint
  NoWait :: bool
  Heartbeat :: duration

text \<open>
  A subscription is known by the inbox subject it listens on; a channel made by
  \<^verbatim>\<open>make(chan struct{})\<close> is known by a number that tells it from the others.
\<close>

record subscription =
  Subject :: string

text \<open>
  The \<^verbatim>\<open>pullConsumer\<close> struct with the fields of the embedded \<^verbatim>\<open>consumer\<close> that
  the delivery code reads or writes. \<open>locked\<close> is the state of the embedded
  \<^verbatim>\<open>sync.Mutex\<close>; a nil pointer or nil channel is \<open>None\<close>.
\<close>

record pullConsumer =
  stream :: string
  name :: string
  subscription :: "subscription option"
  locked :: bool
  heartbeat :: "nat option"
  isStreaming :: "32 word"

subsection \<open>Effects\<close>

text \<open>
  What a call does besides returning is written to a trace, in program order: the
  operations on the mutex and on the atomic streaming flag, the calls to the
  connection and to the subscription, the sends on the heartbeat channel and on
  the target channel, and the assignment \<^verbatim>\<open>p.subscription = nil\<close>.
\<close>

datatype jsonv = JInt int | JBool bool

datatype effect =
    Lock
  | Unlock
  | SubscribeSync string
  | PublishRequest string string string "(string \<times> jsonv) list"
  | NextMsgWithContext
  | Unsubscribe
  | SendHeartbeat
  | SendTarget
  | ClearSubscription
  | LoadStreaming
  | StoreStreaming "32 word"

text \<open>
  A call returns, or waits on a mutex that is held, or panics.
\<close>

datatype 'a outcome = Returned 'a | Blocked | Panicked

text \<open>
  \<^verbatim>\<open>json.Marshal\<close> of a \<^verbatim>\<open>pullRequest\<close>: every field carries \<^verbatim>\<open>omitempty\<close>, so
  a field is written only when it is not the zero value of its type. Marshalling
  a struct of integers and booleans cannot fail.
\<close>

definition marshal :: "pullRequest \<Rightarrow> (string \<times> jsonv) list" where
  "marshal req =
     (if Expires req \<noteq> 0 then [(''expires'', JInt (sint (Expires req)))] else []) @
     (if Batch req \<noteq> 0 then [(''batch'', JInt (sint (Batch req)))] else []) @
     (if MaxBytes req \<noteq> 0 then [(''max_bytes'', JInt (sint (MaxBytes req)))] else []) @
     (if NoWait req then [(''no_wait'', JBool True)] else []) @
     (if Heartbeat req \<noteq> 0 then [(''idle_heartbeat'', JInt (sint (Heartbeat req)))] else [])"

subsection \<open>The transport\<close>

text \<open>
  What the connection answers during one call of \<^verbatim>\<open>fetch\<close>: the inbox that
  \<^verbatim>\<open>nats.NewInbox\<close> hands out, the result of \<^verbatim>\<open>SubscribeSync\<close> (should it be
  called), the result of \<^verbatim>\<open>PublishRequest\<close>, and the results of the successive
  calls of \<^verbatim>\<open>NextMsgWithContext\<close>. The context of a fetch always carries a deadline
  (\<^verbatim>\<open>Next\<close> and \<^verbatim>\<open>Stream\<close> both derive it with \<^verbatim>\<open>WithTimeout\<close>), so when the
  broker has nothing more to say the receive ends with the context's error.
\<close>

record 'm transport =
  newInbox :: string
  subscribeResult :: "error option"
  publishResult :: "error option"
  replies :: "(error + 'm) list"
  ctxErr :: error

subsection \<open>fetch\<close>

text \<open>
  One reply as the loop body sees it: the receive failed or \<^verbatim>\<open>checkMsg\<close> returned
  an error, or the reply is a status message that is not for the user, or it is
  a user message. \<^verbatim>\<open>checkMsg\<close> and \<^verbatim>\<open>toJSMsg\<close> live outside this file and are
  parameters.
\<close>

datatype 'j reply = Fail error | Control | User 'j

definition classify :: "('m \<Rightarrow> error + bool) \<Rightarrow> ('m \<Rightarrow> 'j) \<Rightarrow> error + 'm \<Rightarrow> 'j reply" where
  "classify checkMsg toJSMsg r =
     (case r of
        Inl e \<Rightarrow> Fail e
      | Inr msg \<Rightarrow>
          (case checkMsg msg of
             Inl e \<Rightarrow> Fail e
           | Inr userMsg \<Rightarrow> if \<not> userMsg then Control else User (toJSMsg msg)))"

text \<open>
  The loop \<^verbatim>\<open>for count < req.Batch\<close>. \<open>target\<close> is everything sent on the target
  channel so far, oldest first; \<open>tr\<close> is the trace. The result is the error (or
  none), the target and the trace.
\<close>

fun fetch_loop ::
  "('m \<Rightarrow> error + bool) \<Rightarrow> ('m \<Rightarrow> 'j) \<Rightarrow> pullRequest \<Rightarrow> error \<Rightarrow>
   nat \<Rightarrow> (error + 'm) list \<Rightarrow> 'j list \<Rightarrow> effect list \<Rightarrow>
   error option \<times> 'j list \<times> effect list" where
  "fetch_loop checkMsg toJSMsg req cerr count [] target tr =
     (if int count < sint (Batch req)
      then (Some cerr, target, tr @ [NextMsgWithContext])
      else (None, target, tr))"
| "fetch_loop checkMsg toJSMsg req cerr count (r # rs) target tr =
     (if int count < sint (Batch req)
      then (case classify checkMsg toJSMsg r of
              Fail e \<Rightarrow> (Some e, target, tr @ [NextMsgWithContext])
            | Control \<Rightarrow>
                fetch_loop checkMsg toJSMsg req cerr count rs target
                  (tr @ [NextMsgWithContext] @
                     (if Heartbeat req \<noteq> 0 then [SendHeartbeat] else []))
            | User j \<Rightarrow>
                fetch_loop checkMsg toJSMsg req cerr (Suc count) rs (target @ [j])
                  (tr @ [NextMsgWithContext, SendTarget]))
      else (None, target, tr))"

text \<open>
  Lines 253 to 276 of \<^verbatim>\<open>fetch\<close>, up to its loop. The batch check comes before the
  lock. A locked mutex blocks the call at \<^verbatim>\<open>c.Lock()\<close>. The result says how the
  call ended if it ended here (the deferred \<^verbatim>\<open>c.Unlock()\<close> has run then), or
  \<open>None\<close> when the loop is entered, with the mutex held.
\<close>

definition fetch_open ::
  "'m transport \<Rightarrow> pullConsumer \<Rightarrow> pullRequest \<Rightarrow>
   error option outcome option \<times> pullConsumer \<times> effect list" where
  "fetch_open net c req =
     (if sint (Batch req) < 1
      then (Some (Returned (Some (Wrapf ErrInvalidArg ''batch size must be at least 1''))),
            c, [])
      else if locked c then (Some Blocked, c, [])
      else
        (case (if subscription c = None
               then (case subscribeResult net of
                       Some e \<Rightarrow> Inl e
                     | None \<Rightarrow> Inr (c\<lparr>subscription := Some \<lparr>Subject = newInbox net\<rparr>\<rparr>,
                                    [Lock, SubscribeSync (newInbox net)]))
               else Inr (c, [Lock])) of
           Inl e \<Rightarrow> (Some (Returned (Some e)), c,
                      [Lock, SubscribeSync (newInbox net), Unlock])
         | Inr (c1, tr1) \<Rightarrow>
             (let tr2 = tr1 @ [PublishRequest (stream c1) (name c1)
                                 (case subscription c1 of Some s \<Rightarrow> Subject s | None \<Rightarrow> [])
                                 (marshal req)]
              in case publishResult net of
                   Some e \<Rightarrow> (Some (Returned (Some e)), c1, tr2 @ [Unlock])
                 | None \<Rightarrow> (None, c1\<lparr>locked := True\<rparr>, tr2))))"

text \<open>
  \<^verbatim>\<open>fetch\<close> run from its call to its return: the opening, the loop on the replies
  of the transport, the deferred unlock.
\<close>

definition fetch ::
  "('m \<Rightarrow> error + bool) \<Rightarrow> ('m \<Rightarrow> 'j) \<Rightarrow> 'm transport \<Rightarrow> pullConsumer \<Rightarrow>
   pullRequest \<Rightarrow> 'j list \<Rightarrow>
   error option outcome \<times> pullConsumer \<times> 'j list \<times> effect list" where
  "fetch checkMsg toJSMsg net c req target =
     (case fetch_open net c req of
        (Some out, c1, tr) \<Rightarrow> (out, c1, target, tr)
      | (None, c1, tr) \<Rightarrow>
          (case fetch_loop checkMsg toJSMsg req (ctxErr net) 0 (replies net) target tr of
             (res, target', tr') \<Rightarrow>
               (Returned res, c1\<lparr>locked := False\<rparr>, target', tr' @ [Unlock])))"

text \<open>
  The user messages among some replies, in their order, as the caller will see
  them. This is the specification the loop is compared with.
\<close>

definition user_msgs :: "('m \<Rightarrow> error + bool) \<Rightarrow> ('m \<Rightarrow> 'j) \<Rightarrow> (error + 'm) list \<Rightarrow> 'j list" where
  "user_msgs checkMsg toJSMsg rs =
     concat (map (\<lambda>r. case classify checkMsg toJSMsg r of User j \<Rightarrow> [j] | _ \<Rightarrow> []) rs)"

definition received :: "effect list \<Rightarrow> nat" where
  "received tr = length (filter (\<lambda>e. e = NextMsgWithContext) tr)"

subsection \<open>A broker to evaluate the definitions on\<close>

text \<open>
  Modelled from the spec: \<^verbatim>\<open>checkMsg\<close> is defined in another file of the package.
  The replies of the broker are a user message (opaque payload) or a zero-payload
  status message that says "idle heartbeat", "no messages", "request timeout" or
  "bad request"; the heartbeat marker is not for the user and is no error, "no
  messages" and "request timeout" are the errors \<open>ErrNoMessages\<close> and
  \<open>ErrTimeout\<close>. The theorems below take \<^verbatim>\<open>checkMsg\<close> as a parameter; this
  instance serves to run them on concrete inputs.
\<close>

datatype natsMsg = UserMsg string | IdleHeartbeat | NoMessages | RequestTimeout | BadRequest string

fun checkMsg_status :: "natsMsg \<Rightarrow> error + bool" where
  "checkMsg_status (UserMsg _) = Inr True"
| "checkMsg_status IdleHeartbeat = Inr False"
| "checkMsg_status NoMessages = Inl ErrNoMessages"
| "checkMsg_status RequestTimeout = Inl ErrTimeout"
| "checkMsg_status (BadRequest d) = Inl (TransportError d)"

definition idle :: pullConsumer where
  "idle = \<lparr>stream = ''ORDERS'', name = ''worker'', subscription = None, locked = False,
           heartbeat = None, isStreaming = 0\<rparr>"

definition broker :: "natsMsg list \<Rightarrow> natsMsg transport" where
  "broker ms = \<lparr>newInbox = ''_INBOX.1'', subscribeResult = None, publishResult = None,
               replies = map Inr ms, ctxErr = DeadlineExceeded\<rparr>"

definition batch_of :: "goint \<Rightarrow> pullRequest" where
  "batch_of n = \<lparr>Expires = 0, Batch = n, MaxBytes = 0, NoWait = False, Heartbeat = 0\<rparr>"

section \<open>Next\<close>

text \<open>
  The caller's context, as \<^verbatim>\<open>Next\<close> reads it: \<^verbatim>\<open>ctx.Deadline()\<close> reports no
  deadline (\<open>None\<close>), or a deadline for which \<^verbatim>\<open>time.Until\<close> gives the duration
  that is left.
\<close>

record Context =
  untilDeadline :: "duration option"

text \<open>
  An option function (\<^verbatim>\<open>ConsumerNextOpt\<close>, \<^verbatim>\<open>ConsumerStreamOpt\<close>) changes the
  request or returns an error. The options themselves are defined in another
  file; the calls take any list of them.
\<close>

type_synonym opt = "pullRequest \<Rightarrow> error + pullRequest"

fun apply_opts :: "opt list \<Rightarrow> pullRequest \<Rightarrow> error + pullRequest" where
  "apply_opts [] req = Inr req"
| "apply_opts (opt # opts) req =
     (case opt req of Inl err \<Rightarrow> Inl err | Inr req' \<Rightarrow> apply_opts opts req')"

text \<open>Lines 89 to 93: the timeout of the call.\<close>

definition Next_timeout :: "Context \<Rightarrow> duration" where
  "Next_timeout ctx = (case untilDeadline ctx of None \<Rightarrow> 30 * Second | Some d \<Rightarrow> d)"

text \<open>Lines 94 to 100: the request before the options are applied.\<close>

definition Next_request :: "duration \<Rightarrow> pullRequest" where
  "Next_request timeout =
     (let req = \<lparr>Expires = 0, Batch = 1, MaxBytes = 0, NoWait = False, Heartbeat = 0\<rparr>
      in if sint (20 * Millisecond) \<le> sint timeout
         then req\<lparr>Expires := timeout - 10 * Millisecond\<rparr>
         else req)"

text \<open>
  Lines 84 to 113, up to the release of the mutex: the call waits for the mutex,
  reads the streaming flag, builds the request and installs a fresh heartbeat
  channel \<open>ch\<close>. The result is an early return with an error, or the request and
  the timeout to go on with.
\<close>

definition Next_prepare ::
  "Context \<Rightarrow> opt list \<Rightarrow> nat \<Rightarrow> pullConsumer \<Rightarrow>
   (error + pullRequest \<times> duration) outcome \<times> pullConsumer \<times> effect list" where
  "Next_prepare ctx opts ch p =
     (if locked p then (Blocked, p, [])
      else if isStreaming p = 1
      then (Returned (Inl ErrConsumerHasActiveSubscription), p, [Lock, LoadStreaming, Unlock])
      else (let timeout = Next_timeout ctx
            in case apply_opts opts (Next_request timeout) of
                 Inl err \<Rightarrow> (Returned (Inl err), p, [Lock, LoadStreaming, Unlock])
               | Inr req \<Rightarrow>
                   (Returned (Inr (req, timeout)), p\<lparr>heartbeat := Some ch\<rparr>,
                    [Lock, LoadStreaming, Unlock])))"

text \<open>
  Lines 115 to 123: what the goroutine sends on \<^verbatim>\<open>errs\<close> once \<^verbatim>\<open>fetch\<close> has
  returned, in order.
\<close>

definition Next_goroutine :: "error option \<Rightarrow> error list" where
  "Next_goroutine res =
     (case res of
        None \<Rightarrow> []
      | Some err \<Rightarrow>
          (if errors_Is err ErrNoMessages \<or> errors_Is err ErrTimeout
           then [ErrNoMessages] else []) @ [err])"

text \<open>
  Modelled from the spec: \<^verbatim>\<open>(*nats.Subscription).Unsubscribe\<close> belongs to the
  \<^verbatim>\<open>nats\<close> package, outside these files. Called on a nil subscription it
  returns without doing anything (``a second teardown on an already-nil
  subscription is a no-op''); called on a live one it ends the subscription and
  returns. The error it returns is discarded by every caller here.
\<close>

definition unsubscribe :: "subscription option \<Rightarrow> unit outcome" where
  "unsubscribe sub = (case sub of None \<Rightarrow> Returned () | Some s \<Rightarrow> Returned ())"

text \<open>
  Lines 137 to 140, and 215 to 218, 222 to 225, 237 to 240 of \<^verbatim>\<open>Stream\<close>: with
  the mutex held, \<^verbatim>\<open>Unsubscribe\<close> is called on the subscription, nil or not, and
  the subscription is set to nil.
\<close>

definition drop_subscription :: "pullConsumer \<Rightarrow> pullConsumer outcome \<times> effect list" where
  "drop_subscription p =
     (if locked p then (Blocked, [])
      else (case unsubscribe (subscription p) of
              Returned u \<Rightarrow>
                (Returned (p\<lparr>subscription := None\<rparr>),
                 [Lock, Unsubscribe, ClearSubscription, Unlock])
            | Blocked \<Rightarrow> (Blocked, [Lock, Unsubscribe])
            | Panicked \<Rightarrow> (Panicked, [Lock, Unsubscribe])))"

text \<open>
  What a \<^verbatim>\<open>select\<close> of the wait loop can take: a message from \<^verbatim>\<open>msgChan\<close>, an
  error from \<^verbatim>\<open>errs\<close>, a signal from the heartbeat channel, or the timer of
  \<^verbatim>\<open>time.After(2 * req.Heartbeat)\<close>.
\<close>

datatype 'j signal = FromMsgChan 'j | FromErrs error | FromHeartbeat | FromTimer

text \<open>
  Lines 125 to 154: the wait loop, run on the signals in the order the selects
  take them. Without a heartbeat the select has the first two cases only. With
  no signal left the loop waits. The teardown after the timer waits for the
  mutex.
\<close>

fun Next_wait ::
  "pullRequest \<Rightarrow> pullConsumer \<Rightarrow> 'j signal list \<Rightarrow>
   ('j option \<times> error option) outcome \<times> pullConsumer \<times> effect list" where
  "Next_wait req p [] = (Blocked, p, [])"
| "Next_wait req p (FromMsgChan msg # sigs) = (Returned (Some msg, None), p, [])"
| "Next_wait req p (FromErrs err # sigs) =
     (if errors_Is err ErrNoMessages
      then (Returned (None, None), p, [])
      else (Returned (None, Some err), p, []))"
| "Next_wait req p (FromHeartbeat # sigs) = Next_wait req p sigs"
| "Next_wait req p (FromTimer # sigs) =
     (if Heartbeat req \<noteq> 0
      then (case drop_subscription p of
              (Returned p', tr) \<Rightarrow> (Returned (None, Some ErrNoHeartbeat), p', tr)
            | (_, tr) \<Rightarrow> (Blocked, p, tr))
      else Next_wait req p sigs)"

text \<open>
  The sends of one \<^verbatim>\<open>fetch\<close> as the wait loop meets them: the trace gives the
  order of the sends on the target and on the heartbeat channel, \<open>target\<close> the
  messages.
\<close>

fun signals_of :: "effect list \<Rightarrow> 'j list \<Rightarrow> 'j signal list" where
  "signals_of [] target = []"
| "signals_of (SendHeartbeat # tr) target = FromHeartbeat # signals_of tr target"
| "signals_of (SendTarget # tr) [] = signals_of tr []"
| "signals_of (SendTarget # tr) (j # target) = FromMsgChan j # signals_of tr target"
| "signals_of (e # tr) target = signals_of tr target"

text \<open>
  When the timer of the wait loop fires, the loop is left for good, and the
  goroutine's \<^verbatim>\<open>fetch\<close> goes on unattended: of its heartbeat signals only the
  \<open>k\<close> that the loop took before are received, and \<^verbatim>\<open>msgChan\<close> takes only as
  many messages as it has room for. \<open>unattended\<close> gives the part of the trace of
  \<^verbatim>\<open>fetch\<close> that happens then, and whether \<^verbatim>\<open>fetch\<close> gets to its return; if it
  does not, it stays at a send, holding the mutex.
\<close>

fun unattended :: "nat \<Rightarrow> nat \<Rightarrow> effect list \<Rightarrow> effect list \<times> bool" where
  "unattended k room [] = ([], True)"
| "unattended k room (SendHeartbeat # tr) =
     (case k of
        0 \<Rightarrow> ([], False)
      | Suc k' \<Rightarrow> (case unattended k' room tr of (tr', ok) \<Rightarrow> (SendHeartbeat # tr', ok)))"
| "unattended k room (SendTarget # tr) =
     (case room of
        0 \<Rightarrow> ([], False)
      | Suc room' \<Rightarrow> (case unattended k room' tr of (tr', ok) \<Rightarrow> (SendTarget # tr', ok)))"
| "unattended k room (e # tr) =
     (case unattended k room tr of (tr', ok) \<Rightarrow> (e # tr', ok))"

text \<open>
  The whole call. The wait loop meets the sends of the goroutine's \<^verbatim>\<open>fetch\<close> in
  their order, then what the goroutine sends on \<^verbatim>\<open>errs\<close>. \<open>timer\<close> is the
  timing: \<open>None\<close> when two heartbeat intervals never pass with nothing to
  select, \<open>Some k\<close> when they pass after the loop has taken \<open>k\<close> signals (if it
  is still waiting then). The timer exists only with a heartbeat in the request.
  When it fires, the teardown gets the mutex once \<^verbatim>\<open>fetch\<close> has returned, and
  never if \<^verbatim>\<open>fetch\<close> stays at a send.
\<close>

definition Next ::
  "('m \<Rightarrow> error + bool) \<Rightarrow> ('m \<Rightarrow> 'j) \<Rightarrow> Context \<Rightarrow> opt list \<Rightarrow> nat \<Rightarrow>
   'm transport \<Rightarrow> nat option \<Rightarrow> pullConsumer \<Rightarrow>
   ('j option \<times> error option) outcome \<times> pullConsumer \<times> effect list" where
  "Next checkMsg toJSMsg ctx opts ch net timer p =
     (case Next_prepare ctx opts ch p of
        (Returned (Inl err), p1, tr1) \<Rightarrow> (Returned (None, Some err), p1, tr1)
      | (Returned (Inr (req, timeout)), p1, tr1) \<Rightarrow>
          (case fetch checkMsg toJSMsg net p1 req [] of
             (res, p2, msgChan, tr2) \<Rightarrow>
               (let errs = (case res of Returned r \<Rightarrow> Next_goroutine r | _ \<Rightarrow> []);
                    sigs = signals_of tr2 msgChan @ map FromErrs errs
                in case (if Heartbeat req \<noteq> 0 then timer else None) of
                     None \<Rightarrow>
                       (case Next_wait req p2 sigs of
                          (r, p3, tr3) \<Rightarrow> (r, p3, tr1 @ tr2 @ tr3))
                   | Some k \<Rightarrow>
                       (case Next_wait req p2 (take k sigs) of
                          (Returned r, p3, tr3) \<Rightarrow> (Returned r, p3, tr1 @ tr2 @ tr3)
                        | _ \<Rightarrow>
                            (case unattended k 1 tr2 of
                               (tr2', True) \<Rightarrow>
                                 (case Next_wait req p2 [FromTimer] of
                                    (r, p3, tr3) \<Rightarrow> (r, p3, tr1 @ tr2 @ tr3))
                             | (tr2', False) \<Rightarrow>
                                 (Blocked, p2\<lparr>locked := True\<rparr>, tr1 @ tr2')))))
      | (Blocked, p1, tr1) \<Rightarrow> (Blocked, p1, tr1)
      | (Panicked, p1, tr1) \<Rightarrow> (Panicked, p1, tr1))"

text \<open>
  Modelled from the spec: \<^verbatim>\<open>WithNoWait\<close> is defined with the other options,
  outside these files; it is the option of \<^verbatim>\<open>Next\<close> that the comment on the
  function names, and it sets the no-wait flag of the request.
\<close>

definition WithNoWait :: opt where
  "WithNoWait req = Inr (req\<lparr>NoWait := True\<rparr>)"

text \<open>
  Modelled from the spec: the option that sets the heartbeat interval of the
  request of a \<^verbatim>\<open>Next\<close> call (the wait loop tests \<^verbatim>\<open>req.Heartbeat\<close>, which only
  an option can set) is defined with the other options, outside these files.
\<close>

definition WithNextHeartbeat :: "duration \<Rightarrow> opt" where
  "WithNextHeartbeat hb req = Inr (req\<lparr>Heartbeat := hb\<rparr>)"

section \<open>Stream\<close>

text \<open>
  Lines 215 to 219, 222 to 226 and 237 to 241: the teardown at the end of the
  dispatch goroutine. The streaming flag is stored after the mutex is released.
\<close>

definition Stream_teardown :: "pullConsumer \<Rightarrow> pullConsumer outcome \<times> effect list" where
  "Stream_teardown p =
     (case drop_subscription p of
        (Returned p', tr) \<Rightarrow> (Returned (p'\<lparr>isStreaming := 0\<rparr>), tr @ [StoreStreaming 0])
      | (out, tr) \<Rightarrow> (out, tr))"

text \<open>
  The effects of a trace that happen while the mutex is not held; \<open>h\<close> says
  whether it is held at the start.
\<close>

fun outside :: "bool \<Rightarrow> effect list \<Rightarrow> effect list" where
  "outside h [] = []"
| "outside h (Lock # tr) = outside True tr"
| "outside h (Unlock # tr) = outside False tr"
| "outside h (e # tr) = (if h then [] else [e]) @ outside h tr"

text \<open>
  The two goroutines of \<^verbatim>\<open>Stream\<close> run side by side, so they are modelled by the
  places where each can stand and by the steps that take them from place to
  place, in any interleaving.

  The fetch goroutine is at the \<^verbatim>\<open>select\<close> at the top of its loop; or inside
  \<^verbatim>\<open>fetch\<close>, holding the mutex, about to receive with \<open>count\<close> messages
  delivered; or inside \<^verbatim>\<open>fetch\<close> at one of the two sends (on the unbuffered
  heartbeat channel, on the target); or at \<^verbatim>\<open>errs <- err\<close>; or it has returned.
\<close>

datatype 'j fetcher =
    AtSelect
  | Receiving nat
  | SendingHeartbeat nat
  | SendingTarget 'j nat
  | SendingErr error
  | FetcherExited

text \<open>
  The dispatch goroutine is at its \<^verbatim>\<open>select\<close>; or it has called the handler with
  \<open>ErrNoHeartbeat\<close> and is about to call \<^verbatim>\<open>cancel()\<close>; or it is at \<^verbatim>\<open>p.Lock()\<close>
  of the teardown; or it has returned.
\<close>

datatype dispatcher = Selecting | Cancelling | Tearing | DispatcherExited

text \<open>
  What the goroutines share: the consumer, the request, the channel
  \<^verbatim>\<open>pending\<close> with its capacity, the channel \<^verbatim>\<open>errs\<close> (capacity 1), whether the
  context is done, and the calls made to the handler so far. \<open>fetched\<close> is a
  history: every user message \<^verbatim>\<open>fetch\<close> has received, in order.
\<close>

record 'j streaming =
  consumer :: pullConsumer
  request :: pullRequest
  pending :: "'j list"
  capacity :: nat
  errs :: "error list"
  cancelled :: bool
  handled :: "('j option \<times> error option) list"
  fetched :: "'j list"
  fetcher :: "'j fetcher"
  dispatcher :: dispatcher

text \<open>Lines 171 to 175: the request before the options are applied.\<close>

definition Stream_request :: pullRequest where
  "Stream_request =
     \<lparr>Expires = 30 * Second, Batch = 100, MaxBytes = 0, NoWait = False, Heartbeat = 0\<rparr>"

text \<open>
  Lines 165 to 185 and 247: the call itself, which returns an error or launches
  the goroutines and returns nil. \<open>handler\<close> says whether a handler was given.
  \<^verbatim>\<open>make(chan *jetStreamMsg, 2*req.Batch)\<close> panics on a negative size, and the
  product wraps. The mutex is not taken.
\<close>

definition Stream ::
  "bool \<Rightarrow> opt list \<Rightarrow> nat \<Rightarrow> pullConsumer \<Rightarrow>
   (error + 'j streaming) outcome \<times> pullConsumer \<times> effect list" where
  "Stream handler opts ch p =
     (if isStreaming p = 1
      then (Returned (Inl ErrConsumerHasActiveSubscription), p, [LoadStreaming])
      else if \<not> handler then (Returned (Inl ErrHandlerRequired), p, [LoadStreaming])
      else (case apply_opts opts Stream_request of
              Inl err \<Rightarrow> (Returned (Inl err), p, [LoadStreaming])
            | Inr req \<Rightarrow>
                if sint (2 * Batch req) < 0 then (Panicked, p, [LoadStreaming])
                else (let p' = p\<lparr>heartbeat := Some ch, isStreaming := 1\<rparr>
                      in (Returned (Inr \<lparr>consumer = p', request = req, pending = [],
                                         capacity = nat (sint (2 * Batch req)), errs = [],
                                         cancelled = False, handled = [], fetched = [],
                                         fetcher = AtSelect, dispatcher = Selecting\<rparr>),
                          p', [LoadStreaming, StoreStreaming 1]))))"

text \<open>
  Lines 194 to 197: after \<^verbatim>\<open>fetch\<close> has returned, an error that is neither
  \<open>ErrNoMessages\<close> nor \<open>ErrTimeout\<close> is sent on \<^verbatim>\<open>errs\<close>; otherwise the loop goes
  round.
\<close>

definition after_fetch :: "error option \<Rightarrow> 'j fetcher" where
  "after_fetch res =
     (case res of
        None \<Rightarrow> AtSelect
      | Some err \<Rightarrow>
          if \<not> errors_Is err ErrNoMessages \<and> \<not> errors_Is err ErrTimeout
          then SendingErr err else AtSelect)"

text \<open>
  The steps. The fetch goroutine: an iteration of its loop at the select, with
  what the connection answers if \<^verbatim>\<open>fetch\<close> is called; a return of
  \<^verbatim>\<open>NextMsgWithContext\<close>; the completion of a send on the target or on \<^verbatim>\<open>errs\<close>.
  The dispatch goroutine: one step for each case of its select, then
  \<^verbatim>\<open>cancel()\<close>, then the teardown. The caller may cancel the context at any
  time.
\<close>

datatype 'm action =
    FetcherSelect "'m transport"
  | FetcherReceive "error + 'm"
  | FetcherSend
  | TakeMsg
  | TakeErr
  | TakeHeartbeat
  | TimerFires
  | CtxDone
  | DispatcherCancel
  | DispatcherTeardown
  | CallerCancel

text \<open>
  One step; \<open>None\<close> when the goroutine that would take it is not at that place,
  or is there and has to wait (for the mutex, for room in a channel, for the
  other side of the unbuffered heartbeat channel).
\<close>

fun step ::
  "('m \<Rightarrow> error + bool) \<Rightarrow> ('m \<Rightarrow> 'j) \<Rightarrow> 'm action \<Rightarrow> 'j streaming \<Rightarrow>
   'j streaming option" where
  "step checkMsg toJSMsg (FetcherSelect net) s =
     (if fetcher s = AtSelect
      then (if cancelled s then Some (s\<lparr>fetcher := FetcherExited\<rparr>)
            else if int (length (pending s)) < sint (Batch (request s))
            then (case fetch_open net (consumer s) (request s) of
                    (Some (Returned res), c, tr) \<Rightarrow>
                      Some (s\<lparr>consumer := c, fetcher := after_fetch res\<rparr>)
                  | (Some _, c, tr) \<Rightarrow> None
                  | (None, c, tr) \<Rightarrow> Some (s\<lparr>consumer := c, fetcher := Receiving 0\<rparr>))
            else Some s)
      else None)"
| "step checkMsg toJSMsg (FetcherReceive r) s =
     (case fetcher s of
        Receiving count \<Rightarrow>
          (case classify checkMsg toJSMsg r of
             Fail e \<Rightarrow>
               Some (s\<lparr>consumer := (consumer s)\<lparr>locked := False\<rparr>,
                       fetcher := after_fetch (Some e)\<rparr>)
           | Control \<Rightarrow>
               Some (s\<lparr>fetcher := (if Heartbeat (request s) \<noteq> 0
                                     then SendingHeartbeat count else Receiving count)\<rparr>)
           | User j \<Rightarrow>
               Some (s\<lparr>fetched := fetched s @ [j], fetcher := SendingTarget j count\<rparr>))
      | _ \<Rightarrow> None)"
| "step checkMsg toJSMsg FetcherSend s =
     (case fetcher s of
        SendingTarget j count \<Rightarrow>
          if length (pending s) < capacity s
          then (if int (Suc count) < sint (Batch (request s))
                then Some (s\<lparr>pending := pending s @ [j], fetcher := Receiving (Suc count)\<rparr>)
                else Some (s\<lparr>pending := pending s @ [j],
                             consumer := (consumer s)\<lparr>locked := False\<rparr>,
                             fetcher := after_fetch None\<rparr>))
          else None
      | SendingErr err \<Rightarrow>
          if length (errs s) < 1
          then Some (s\<lparr>errs := errs s @ [err], fetcher := AtSelect\<rparr>)
          else None
      | _ \<Rightarrow> None)"
| "step checkMsg toJSMsg TakeMsg s =
     (if dispatcher s = Selecting
      then (case pending s of
              [] \<Rightarrow> None
            | msg # rest \<Rightarrow>
                Some (s\<lparr>pending := rest, handled := handled s @ [(Some msg, None)]\<rparr>))
      else None)"
| "step checkMsg toJSMsg TakeErr s =
     (if dispatcher s = Selecting
      then (case errs s of
              [] \<Rightarrow> None
            | err # rest \<Rightarrow>
                Some (s\<lparr>errs := rest, handled := handled s @ [(None, Some err)]\<rparr>))
      else None)"
| "step checkMsg toJSMsg TakeHeartbeat s =
     (if dispatcher s = Selecting \<and> Heartbeat (request s) \<noteq> 0
      then (case fetcher s of
              SendingHeartbeat count \<Rightarrow> Some (s\<lparr>fetcher := Receiving count\<rparr>)
            | _ \<Rightarrow> None)
      else None)"
| "step checkMsg toJSMsg TimerFires s =
     (if dispatcher s = Selecting \<and> Heartbeat (request s) \<noteq> 0
      then Some (s\<lparr>handled := handled s @ [(None, Some ErrNoHeartbeat)],
                   dispatcher := Cancelling\<rparr>)
      else None)"
| "step checkMsg toJSMsg CtxDone s =
     (if dispatcher s = Selecting \<and> cancelled s
      then Some (s\<lparr>dispatcher := Tearing\<rparr>)
      else None)"
| "step checkMsg toJSMsg DispatcherCancel s =
     (if dispatcher s = Cancelling
      then Some (s\<lparr>cancelled := True, dispatcher := Tearing\<rparr>)
      else None)"
| "step checkMsg toJSMsg DispatcherTeardown s =
     (if dispatcher s = Tearing
      then (case Stream_teardown (consumer s) of
              (Returned c, tr) \<Rightarrow> Some (s\<lparr>consumer := c, dispatcher := DispatcherExited\<rparr>)
            | _ \<Rightarrow> None)
      else None)"
| "step checkMsg toJSMsg CallerCancel s = Some (s\<lparr>cancelled := True\<rparr>)"

text \<open>A run: the steps of a schedule one after the other, while they can be taken.\<close>

fun run ::
  "('m \<Rightarrow> error + bool) \<Rightarrow> ('m \<Rightarrow> 'j) \<Rightarrow> 'm action list \<Rightarrow> 'j streaming \<Rightarrow>
   'j streaming option" where
  "run checkMsg toJSMsg [] s = Some s"
| "run checkMsg toJSMsg (a # as) s =
     (case step checkMsg toJSMsg a s of
        None \<Rightarrow> None
      | Some s' \<Rightarrow> run checkMsg toJSMsg as s')"

text \<open>The messages the handler has been given, in the order of the calls.\<close>

definition delivered :: "('j option \<times> error option) list \<Rightarrow> 'j list" where
  "delivered calls = concat (map (\<lambda>c. case fst c of Some msg \<Rightarrow> [msg] | None \<Rightarrow> []) calls)"

text \<open>The message that \<^verbatim>\<open>fetch\<close> has received and not yet put on the target.\<close>

fun in_flight :: "'j fetcher \<Rightarrow> 'j list" where
  "in_flight (SendingTarget j count) = [j]"
| "in_flight _ = []"

text \<open>
  Modelled from the spec: \<^verbatim>\<open>WithStreamHeartbeat\<close> and \<^verbatim>\<open>WithBatchSize\<close> are
  defined with the other options, outside these files; they set the idle
  heartbeat and the batch size of the request.
\<close>

definition WithStreamHeartbeat :: "duration \<Rightarrow> opt" where
  "WithStreamHeartbeat hb req = Inr (req\<lparr>Heartbeat := hb\<rparr>)"

definition WithBatchSize :: "goint \<Rightarrow> opt" where
  "WithBatchSize n req = Inr (req\<lparr>Batch := n\<rparr>)"

text \<open>
  The schedule of one \<^verbatim>\<open>fetch\<close> of the fetch goroutine that runs undisturbed on
  the replies \<open>rs\<close>: a step for each receive, the completion of each send on the
  target, the dispatch goroutine taking each heartbeat signal; when the replies
  run out the receive returns the error of the context.
\<close>

fun alone ::
  "('m \<Rightarrow> error + bool) \<Rightarrow> ('m \<Rightarrow> 'j) \<Rightarrow> pullRequest \<Rightarrow> error \<Rightarrow> nat \<Rightarrow>
   (error + 'm) list \<Rightarrow> 'm action list" where
  "alone checkMsg toJSMsg req cerr count [] =
     (if int count < sint (Batch req) then [FetcherReceive (Inl cerr)] else [])"
| "alone checkMsg toJSMsg req cerr count (r # rs) =
     (if int count < sint (Batch req)
      then (case classify checkMsg toJSMsg r of
              Fail e \<Rightarrow> [FetcherReceive r]
            | Control \<Rightarrow>
                FetcherReceive r # (if Heartbeat req \<noteq> 0 then [TakeHeartbeat] else []) @
                alone checkMsg toJSMsg req cerr count rs
            | User j \<Rightarrow>
                [FetcherReceive r, FetcherSend] @ alone checkMsg toJSMsg req cerr (Suc count) rs)
      else [])"

subsection \<open>Invariants of the two goroutines\<close>

text \<open>The count of the \<^verbatim>\<open>fetch\<close> that is running, if one is.\<close>

fun fetching :: "'j fetcher \<Rightarrow> nat option" where
  "fetching (Receiving c) = Some c"
| "fetching (SendingHeartbeat c) = Some c"
| "fetching (SendingTarget j c) = Some c"
| "fetching _ = None"

text \<open>
  The bound on \<^verbatim>\<open>pending\<close>: its capacity is twice the batch size; while a fetch
  with \<open>c\<close> messages delivered runs there are fewer than \<open>Batch + c\<close> messages
  pending, and \<open>c\<close> is below \<open>Batch\<close>; outside a fetch there are at most twice
  \<open>Batch\<close>.
\<close>

definition bounded :: "'j streaming \<Rightarrow> bool" where
  "bounded s =
     (0 \<le> sint (Batch (request s)) \<and>
      capacity s = nat (2 * sint (Batch (request s))) \<and>
      (\<forall>c. fetching (fetcher s) = Some c \<longrightarrow>
           int c < sint (Batch (request s)) \<and>
           int (length (pending s)) < sint (Batch (request s)) + int c) \<and>
      (fetching (fetcher s) = None \<longrightarrow>
         int (length (pending s)) \<le> 2 * sint (Batch (request s))))"

text \<open>
  Nothing is lost: the messages fetched are those handed to the handler, then
  those pending, then the one on its way into \<^verbatim>\<open>pending\<close>.
\<close>

definition accounted :: "'j streaming \<Rightarrow> bool" where
  "accounted s = (fetched s = delivered (handled s) @ pending s @ in_flight (fetcher s))"

text \<open>
  A stream to evaluate the steps on: a handler, a heartbeat of 50 milliseconds and
  a batch size of 2, started on the idle consumer.
\<close>

definition started :: "natsMsg streaming" where
  "started =
     \<lparr>consumer = idle\<lparr>heartbeat := Some 1, isStreaming := 1\<rparr>,
      request = \<lparr>Expires = 30 * Second, Batch = 2, MaxBytes = 0, NoWait = False,
                 Heartbeat = 50 * Millisecond\<rparr>,
      pending = [], capacity = 4, errs = [], cancelled = False, handled = [], fetched = [],
      fetcher = AtSelect, dispatcher = Selecting\<rparr>"

text \<open>
  The consumer of that stream while its \<^verbatim>\<open>fetch\<close> waits for replies: subscribed,
  streaming, the mutex held.
\<close>

definition busy :: pullConsumer where
  "busy = idle\<lparr>heartbeat := Some 1, isStreaming := 1,
               subscription := Some \<lparr>Subject = ''_INBOX.1''\<rparr>, locked := True\<rparr>"

text \<open>
  The stream after the timer of the dispatch goroutine has fired, a heartbeat
  reply has reached \<^verbatim>\<open>fetch\<close>, and \<^verbatim>\<open>cancel()\<close> has been called.
\<close>

definition stuck :: "natsMsg streaming" where
  "stuck = started\<lparr>consumer := busy, cancelled := True,
                   handled := [(None, Some ErrNoHeartbeat)],
                   fetcher := SendingHeartbeat 0, dispatcher := Tearing\<rparr>"

text \<open>A connection on which publishing fails.\<close>

definition closed :: "natsMsg transport" where
  "closed = (broker [])\<lparr>publishResult := Some (TransportError ''connection closed'')\<rparr>"


text \<open>
  That stream after a fetch that could not publish: the error is on \<^verbatim>\<open>errs\<close>,
  the fetch goroutine is back at its select.
\<close>

definition failing :: "natsMsg streaming" where
  "failing = started\<lparr>consumer := busy\<lparr>locked := False\<rparr>,
                      errs := [TransportError ''connection closed'']\<rparr>"

section \<open>Properties of fetch\<close>

lemma received_append: "received (a @ b) = received a + received b"
  by (simp add: received_def)

lemma user_msgs_Cons:
  "user_msgs cm tj (r # rs) =
     (case classify cm tj r of User j \<Rightarrow> [j] | _ \<Rightarrow> []) @ user_msgs cm tj rs"
  by (simp add: user_msgs_def)

text \<open>The loop only ever adds receives to the trace.\<close>

lemma fetch_loop_received:
  "fetch_loop cm tj req cerr count rs target tr = (res, target', tr') \<Longrightarrow>
   received tr \<le> received tr'"
proof (induction rs arbitrary: count target tr)
  case Nil
  then show ?case by (auto simp: received_append split: if_splits)
next
  case (Cons r rs)
  show ?case
  proof (cases "int count < sint (Batch req)")
    case False
    with Cons.prems show ?thesis by simp
  next
    case True
    show ?thesis
    proof (cases "classify cm tj r")
      case (Fail e)
      with True Cons.prems show ?thesis by (auto simp: received_append)
    next
      case Control
      with True Cons.prems Cons.IH[of count target] show ?thesis
        by (fastforce simp: received_append received_def)
    next
      case (User j)
      with True Cons.prems Cons.IH[of "Suc count" "target @ [j]"] show ?thesis
        by (fastforce simp: received_append received_def)
    qed
  qed
qed

text \<open>
  What the loop appends to the target is exactly the user messages among the
  replies it received, whatever way it ends.
\<close>

lemma fetch_loop_target:
  "fetch_loop cm tj req cerr count rs target tr = (res, target', tr') \<Longrightarrow>
   target' = target @ user_msgs cm tj (take (received tr' - received tr) rs)"
proof (induction rs arbitrary: count target tr)
  case Nil
  then show ?case by (auto simp: user_msgs_def split: if_splits)
next
  case (Cons r rs)
  show ?case
  proof (cases "int count < sint (Batch req)")
    case False
    with Cons.prems show ?thesis by (simp add: user_msgs_def)
  next
    case True
    show ?thesis
    proof (cases "classify cm tj r")
      case (Fail e)
      with True Cons.prems show ?thesis
        by (auto simp: received_append received_def user_msgs_def)
    next
      case Control
      let ?tr1 = "tr @ [NextMsgWithContext] @ (if Heartbeat req \<noteq> 0 then [SendHeartbeat] else [])"
      from True Control Cons.prems
      have run: "fetch_loop cm tj req cerr count rs target ?tr1 = (res, target', tr')"
        by simp
      have r1: "received ?tr1 = Suc (received tr)"
        by (simp add: received_def)
      from fetch_loop_received[OF run] r1
      have "received tr' - received tr = Suc (received tr' - received ?tr1)" by simp
      with Cons.IH[OF run] Control show ?thesis
        by (simp add: user_msgs_Cons)
    next
      case (User j)
      let ?tr1 = "tr @ [NextMsgWithContext, SendTarget]"
      from True User Cons.prems
      have run: "fetch_loop cm tj req cerr (Suc count) rs (target @ [j]) ?tr1 = (res, target', tr')"
        by simp
      have r1: "received ?tr1 = Suc (received tr)"
        by (simp add: received_def)
      from fetch_loop_received[OF run] r1
      have "received tr' - received tr = Suc (received tr' - received ?tr1)" by simp
      with Cons.IH[OF run] User show ?thesis
        by (simp add: user_msgs_Cons)
    qed
  qed
qed

text \<open>A loop that ends without error has brought the count up to the batch size.\<close>

lemma fetch_loop_success:
  "fetch_loop cm tj req cerr count rs target tr = (None, target', tr') \<Longrightarrow>
   int count \<le> sint (Batch req) \<Longrightarrow>
   int (length target') = int (length target) + (sint (Batch req) - int count)"
proof (induction rs arbitrary: count target tr)
  case Nil
  then show ?case by (auto split: if_splits)
next
  case (Cons r rs)
  show ?case
  proof (cases "int count < sint (Batch req)")
    case False
    with Cons.prems show ?thesis by simp
  next
    case True
    show ?thesis
    proof (cases "classify cm tj r")
      case (Fail e)
      with True Cons.prems show ?thesis by simp
    next
      case Control
      with True Cons.prems Cons.IH[of count target] show ?thesis by simp
    next
      case (User j)
      with True Cons.prems Cons.IH[of "Suc count" "target @ [j]"] show ?thesis by simp
    qed
  qed
qed

text \<open>
  Claim C1. For a request with \<open>Batch \<ge> 1\<close>, whenever \<^verbatim>\<open>fetch\<close> returns, the
  target channel has been sent exactly the user messages among the replies that
  were received (the trace counts the receives), in the order of their arrival,
  after what it held before: nothing received is dropped, also when the call ends
  with an error. When the call returns nil, those user messages are \<open>Batch\<close> many.
\<close>

theorem fetch_delivers:
  assumes "1 \<le> sint (Batch req)"
    and "fetch cm tj net c req target = (Returned res, c', target', tr)"
  shows "target' = target @ user_msgs cm tj (take (received tr) (replies net)) \<and>
         (res = None \<longrightarrow>
            int (length (user_msgs cm tj (take (received tr) (replies net)))) = sint (Batch req))"
proof (cases "subscription c = None \<and> subscribeResult net \<noteq> None")
  case True
  with assms show ?thesis
    by (auto simp: fetch_def fetch_open_def received_def user_msgs_def split: if_splits)
next
  case False
  define c1 where "c1 = (if subscription c = None
          then c\<lparr>subscription := Some \<lparr>Subject = newInbox net\<rparr>\<rparr> else c)"
  define tr1 where "tr1 = (if subscription c = None
          then [Lock, SubscribeSync (newInbox net)] else [Lock])"
  define tr2 where "tr2 = tr1 @ [PublishRequest (stream c1) (name c1)
                                 (case subscription c1 of Some s \<Rightarrow> Subject s | None \<Rightarrow> [])
                                 (marshal req)]"
  have r2: "received tr2 = 0"
    by (simp add: tr2_def tr1_def received_def)
  show ?thesis
  proof (cases "publishResult net")
    case (Some e)
    with False assms show ?thesis
      by (auto simp: fetch_def fetch_open_def received_def user_msgs_def Let_def split: if_splits option.splits)
  next
    case None
    obtain res0 tg0 tr3 where
      run: "fetch_loop cm tj req (ctxErr net) 0 (replies net) target tr2 = (res0, tg0, tr3)"
      by (cases "fetch_loop cm tj req (ctxErr net) 0 (replies net) target tr2") auto
    from None False assms run
    have eqs: "res = res0" "target' = tg0" "tr = tr3 @ [Unlock]"
      by (auto simp: fetch_def fetch_open_def Let_def tr2_def tr1_def c1_def split: if_splits option.splits)
    have rtr: "received tr = received tr3"
      using eqs by (simp add: received_def)
    from fetch_loop_target[OF run] r2 eqs rtr
    have tg: "target' = target @ user_msgs cm tj (take (received tr) (replies net))"
      by simp
    have "res = None \<longrightarrow>
            int (length (user_msgs cm tj (take (received tr) (replies net)))) = sint (Batch req)"
    proof
      assume "res = None"
      with run eqs
      have "fetch_loop cm tj req (ctxErr net) 0 (replies net) target tr2 = (None, target', tr3)"
        by simp
      from fetch_loop_success[OF this] assms(1)
      have "int (length target') = int (length target) + sint (Batch req)" by simp
      with tg
      show "int (length (user_msgs cm tj (take (received tr) (replies net)))) = sint (Batch req)"
        by (metis add_left_cancel length_append of_nat_add)
    qed
    with tg show ?thesis by simp
  qed
qed

theorem fetch_delivers_witness:
  "1 \<le> sint (Batch (batch_of 2)) \<and>
   fetch checkMsg_status id (broker [UserMsg ''a'', IdleHeartbeat, UserMsg ''b'', UserMsg ''c''])
     idle (batch_of 2) [] =
     (Returned None, idle\<lparr>subscription := Some \<lparr>Subject = ''_INBOX.1''\<rparr>\<rparr>,
      [UserMsg ''a'', UserMsg ''b''],
      [Lock, SubscribeSync ''_INBOX.1'',
       PublishRequest ''ORDERS'' ''worker'' ''_INBOX.1'' [(''batch'', JInt 2)],
       NextMsgWithContext, SendTarget, NextMsgWithContext,
       NextMsgWithContext, SendTarget, Unlock]) \<and>
   [UserMsg ''a'', UserMsg ''b''] =
     [] @ user_msgs checkMsg_status id
            (take 3 (replies (broker [UserMsg ''a'', IdleHeartbeat, UserMsg ''b'', UserMsg ''c''])))"
proof -
  have b: "1 \<le> sint (Batch (batch_of 2))" by (simp add: batch_of_def)
  have run: "fetch checkMsg_status id
       (broker [UserMsg ''a'', IdleHeartbeat, UserMsg ''b'', UserMsg ''c''])
       idle (batch_of 2) [] =
     (Returned None, idle\<lparr>subscription := Some \<lparr>Subject = ''_INBOX.1''\<rparr>\<rparr>,
      [UserMsg ''a'', UserMsg ''b''],
      [Lock, SubscribeSync ''_INBOX.1'',
       PublishRequest ''ORDERS'' ''worker'' ''_INBOX.1'' [(''batch'', JInt 2)],
       NextMsgWithContext, SendTarget, NextMsgWithContext,
       NextMsgWithContext, SendTarget, Unlock])"
    by (simp add: fetch_def fetch_open_def broker_def idle_def batch_of_def classify_def marshal_def)
  from fetch_delivers[OF b run] b run show ?thesis
    by (simp add: received_def numeral_3_eq_3)
qed

text \<open>
  Claim C5. A request whose batch is zero or negative makes \<^verbatim>\<open>fetch\<close> return an
  error that wraps \<open>ErrInvalidArg\<close> before anything else happens: the trace is
  empty (the mutex is not touched, no subscription is made, nothing is published,
  nothing is received), and the consumer and the target are as they were.
\<close>

theorem fetch_invalid_batch:
  assumes "sint (Batch req) < 1"
  shows "fetch cm tj net c req target =
           (Returned (Some (Wrapf ErrInvalidArg ''batch size must be at least 1'')),
            c, target, []) \<and>
         errors_Is (Wrapf ErrInvalidArg ''batch size must be at least 1'') ErrInvalidArg"
  using assms by (simp add: fetch_def fetch_open_def)

theorem fetch_invalid_batch_witness:
  "sint (Batch (batch_of 0)) < 1 \<and>
   fetch checkMsg_status id (broker [UserMsg ''a'']) idle (batch_of 0) [] =
     (Returned (Some (Wrapf ErrInvalidArg ''batch size must be at least 1'')), idle, [], []) \<and>
   errors_Is (Wrapf ErrInvalidArg ''batch size must be at least 1'') ErrInvalidArg"
proof -
  have b: "sint (Batch (batch_of 0)) < 1" by (simp add: batch_of_def)
  from fetch_invalid_batch[OF b, of checkMsg_status id "broker [UserMsg ''a'']" idle "[]"] b
  show ?thesis by simp
qed

section \<open>Properties of Next\<close>

text \<open>Heartbeat signals only make the wait loop go round once more.\<close>

lemma Next_wait_heartbeats:
  "Next_wait req p (signals_of tr [] @ rest) = Next_wait req p rest"
proof (induction tr)
  case Nil
  show ?case by simp
next
  case (Cons e tr)
  then show ?case by (cases e) simp_all
qed

text \<open>
  A request for one message that ends with an error has sent nothing on the
  target: that is so for every request that \<^verbatim>\<open>Next\<close> builds with \<open>Batch = 1\<close>.
\<close>

lemma fetch_loop_single:
  "fetch_loop cm tj req cerr count rs target tr = (Some err, target', tr') \<Longrightarrow>
   sint (Batch req) = 1 \<Longrightarrow> target' = target"
proof (induction rs arbitrary: tr)
  case Nil
  then show ?case by (auto split: if_splits)
next
  case (Cons r rs)
  then show ?case
    by (cases "classify cm tj r"; cases rs) (auto split: if_splits)
qed

lemma fetch_single_error:
  assumes "fetch cm tj net c req target = (Returned (Some err), c', target', tr)"
    and "sint (Batch req) = 1"
  shows "target' = target"
proof -
  have "\<And>tr0 res tg tr3. fetch_loop cm tj req (ctxErr net) 0 (replies net) target tr0 = (res, tg, tr3)
          \<Longrightarrow> res = Some err \<Longrightarrow> tg = target"
    using fetch_loop_single assms(2) by blast
  with assms show ?thesis
    by (auto simp: fetch_def fetch_open_def Let_def split: if_splits option.splits sum.splits prod.splits)
qed

text \<open>
  Claim C4, as stated, fails. With 15 milliseconds left and a broker that stays
  silent, the \<^verbatim>\<open>fetch\<close> under \<^verbatim>\<open>Next\<close> ends with the timeout of its own context,
  which is not \<open>ErrTimeout\<close>, and \<^verbatim>\<open>Next\<close> returns that error, not a nil
  message with a nil error. And with a heartbeat of 50 milliseconds in the
  request and a broker that stays silent until its request-timeout status, the
  timer of the wait loop fires first: the \<^verbatim>\<open>fetch\<close> ends with \<open>ErrTimeout\<close>, and
  \<^verbatim>\<open>Next\<close> returns \<open>ErrNoHeartbeat\<close>.
\<close>

theorem Next_nil_nil_counterexample:
  "Next checkMsg_status id \<lparr>untilDeadline = Some (15 * Millisecond)\<rparr> [] 1 (broker []) None
     idle =
     (Returned (None, Some DeadlineExceeded),
      idle\<lparr>heartbeat := Some 1, subscription := Some \<lparr>Subject = ''_INBOX.1''\<rparr>\<rparr>,
      [Lock, LoadStreaming, Unlock, Lock, SubscribeSync ''_INBOX.1'',
       PublishRequest ''ORDERS'' ''worker'' ''_INBOX.1'' [(''batch'', JInt 1)],
       NextMsgWithContext, Unlock]) \<and>
   Next checkMsg_status id \<lparr>untilDeadline = None\<rparr> [WithNextHeartbeat (50 * Millisecond)] 1
     (broker [RequestTimeout]) (Some 0) idle =
     (Returned (None, Some ErrNoHeartbeat), idle\<lparr>heartbeat := Some 1\<rparr>,
      [Lock, LoadStreaming, Unlock, Lock, SubscribeSync ''_INBOX.1'',
       PublishRequest ''ORDERS'' ''worker'' ''_INBOX.1''
         [(''expires'', JInt 29990000000), (''batch'', JInt 1),
          (''idle_heartbeat'', JInt 50000000)],
       NextMsgWithContext, Unlock, Lock, Unsubscribe, ClearSubscription, Unlock])"
  by (simp add: Next_def Next_prepare_def Next_timeout_def Next_request_def Next_goroutine_def
      WithNextHeartbeat_def fetch_def fetch_open_def classify_def marshal_def broker_def idle_def
      drop_subscription_def unsubscribe_def Millisecond_def Second_def)

text \<open>
  The first thing the goroutine sends on \<^verbatim>\<open>errs\<close> decides the call: \<open>ErrNoMessages\<close>
  for an error that is \<open>ErrNoMessages\<close> or \<open>ErrTimeout\<close>, the error itself otherwise.
\<close>

lemma Next_goroutine_decides:
  "\<exists>e es. Next_goroutine (Some err) = e # es \<and>
          (\<forall>rest. Next_wait req p (FromErrs e # rest) =
             (Returned (None, if errors_Is err ErrNoMessages \<or> errors_Is err ErrTimeout
                              then None else Some err), p, []))"
  by (simp add: Next_goroutine_def)

text \<open>
  Claim C4, amended. When the \<^verbatim>\<open>fetch\<close> under a \<^verbatim>\<open>Next\<close> ends with an error,
  having delivered no message, and the timer of the wait loop (which exists only
  with a heartbeat in the request) has not fired before that error reaches the
  loop, \<^verbatim>\<open>Next\<close> returns a nil message with a nil error if the error is
  \<open>ErrNoMessages\<close> or the request-timeout status \<open>ErrTimeout\<close> (in the sense of
  \<^verbatim>\<open>errors.Is\<close>, as line 118 tests it), and a nil message with that very error
  otherwise; the error of the context's own deadline is among the latter.
\<close>

theorem Next_fetch_error:
  fixes toJSMsg :: "'m \<Rightarrow> 'j"
  assumes "Next_prepare ctx opts ch p = (Returned (Inr (req, timeout)), p1, tr1)"
    and "fetch checkMsg toJSMsg net p1 req [] = (Returned (Some err), p2, [], tr2)"
    and "\<And>k. Heartbeat req \<noteq> 0 \<Longrightarrow> timer = Some k \<Longrightarrow>
              length (signals_of tr2 ([] :: 'j list)) < k"
  shows "Next checkMsg toJSMsg ctx opts ch net timer p =
           (Returned (None, if errors_Is err ErrNoMessages \<or> errors_Is err ErrTimeout
                            then None else Some err),
            p2, tr1 @ tr2)"
proof -
  define out :: "'j option \<times> error option"
    where "out = (None, if errors_Is err ErrNoMessages \<or> errors_Is err ErrTimeout
                        then None else Some err)"
  define hbs :: "'j signal list" where "hbs = signals_of tr2 []"
  obtain e es where ges: "Next_goroutine (Some err) = e # es"
    and dec: "\<And>rest. Next_wait req p2 (FromErrs e # rest) = (Returned out, p2, [])"
    using Next_goroutine_decides[of err req p2] unfolding out_def by blast
  have all: "Next_wait req p2 (hbs @ map FromErrs (Next_goroutine (Some err))) =
               (Returned out, p2, [])"
    unfolding hbs_def ges by (simp only: list.map Next_wait_heartbeats dec)
  show ?thesis
  proof (cases "if Heartbeat req \<noteq> 0 then timer else None")
    case None
    with assms(1,2) all show ?thesis
      by (simp add: Next_def hbs_def out_def)
  next
    case (Some k)
    then have hb: "Heartbeat req \<noteq> 0" and t: "timer = Some k"
      by (auto split: if_splits)
    from assms(3)[OF hb t] have lt: "length hbs < k" by (simp add: hbs_def)
    then obtain n where n: "k - length hbs = Suc n"
      by (cases "k - length hbs") auto
    have "take k (hbs @ map FromErrs (Next_goroutine (Some err))) =
            hbs @ FromErrs e # take n (map FromErrs es)"
      using lt n by (simp add: ges)
    then have "Next_wait req p2 (take k (hbs @ map FromErrs (Next_goroutine (Some err)))) =
            (Returned out, p2, [])"
      unfolding hbs_def by (simp only: Next_wait_heartbeats dec)
    with assms(1,2) Some show ?thesis
      by (simp add: Next_def hbs_def out_def)
  qed
qed

theorem Next_fetch_error_witness:
  "Next_prepare \<lparr>untilDeadline = None\<rparr> [WithNextHeartbeat (50 * Millisecond)] 1 idle =
     (Returned (Inr (\<lparr>Expires = 29990000000, Batch = 1, MaxBytes = 0, NoWait = False,
                       Heartbeat = 50000000\<rparr>, 30000000000)),
      idle\<lparr>heartbeat := Some 1\<rparr>, [Lock, LoadStreaming, Unlock]) \<and>
   fetch checkMsg_status id (broker [IdleHeartbeat, RequestTimeout])
       (idle\<lparr>heartbeat := Some 1\<rparr>)
       \<lparr>Expires = 29990000000, Batch = 1, MaxBytes = 0, NoWait = False, Heartbeat = 50000000\<rparr>
       ([] :: natsMsg list) =
     (Returned (Some ErrTimeout),
      idle\<lparr>heartbeat := Some 1, subscription := Some \<lparr>Subject = ''_INBOX.1''\<rparr>\<rparr>, [],
      [Lock, SubscribeSync ''_INBOX.1'',
       PublishRequest ''ORDERS'' ''worker'' ''_INBOX.1''
         [(''expires'', JInt 29990000000), (''batch'', JInt 1),
          (''idle_heartbeat'', JInt 50000000)],
       NextMsgWithContext, SendHeartbeat, NextMsgWithContext, Unlock]) \<and>
   Next checkMsg_status id \<lparr>untilDeadline = None\<rparr> [WithNextHeartbeat (50 * Millisecond)] 1
     (broker [IdleHeartbeat, RequestTimeout]) (Some 2) idle =
     (Returned (None, None),
      idle\<lparr>heartbeat := Some 1, subscription := Some \<lparr>Subject = ''_INBOX.1''\<rparr>\<rparr>,
      [Lock, LoadStreaming, Unlock] @
      [Lock, SubscribeSync ''_INBOX.1'',
       PublishRequest ''ORDERS'' ''worker'' ''_INBOX.1''
         [(''expires'', JInt 29990000000), (''batch'', JInt 1),
          (''idle_heartbeat'', JInt 50000000)],
       NextMsgWithContext, SendHeartbeat, NextMsgWithContext, Unlock])"
proof -
  have prep: "Next_prepare \<lparr>untilDeadline = None\<rparr> [WithNextHeartbeat (50 * Millisecond)] 1 idle =
     (Returned (Inr (\<lparr>Expires = 29990000000, Batch = 1, MaxBytes = 0, NoWait = False,
                       Heartbeat = 50000000\<rparr>, 30000000000)),
      idle\<lparr>heartbeat := Some 1\<rparr>, [Lock, LoadStreaming, Unlock])"
    by (simp add: Next_prepare_def Next_timeout_def Next_request_def idle_def
        WithNextHeartbeat_def Second_def Millisecond_def)
  have run: "fetch checkMsg_status id (broker [IdleHeartbeat, RequestTimeout])
       (idle\<lparr>heartbeat := Some 1\<rparr>)
       \<lparr>Expires = 29990000000, Batch = 1, MaxBytes = 0, NoWait = False, Heartbeat = 50000000\<rparr>
       ([] :: natsMsg list) =
     (Returned (Some ErrTimeout),
      idle\<lparr>heartbeat := Some 1, subscription := Some \<lparr>Subject = ''_INBOX.1''\<rparr>\<rparr>, [],
      [Lock, SubscribeSync ''_INBOX.1'',
       PublishRequest ''ORDERS'' ''worker'' ''_INBOX.1''
         [(''expires'', JInt 29990000000), (''batch'', JInt 1),
          (''idle_heartbeat'', JInt 50000000)],
       NextMsgWithContext, SendHeartbeat, NextMsgWithContext, Unlock])"
    by (simp add: fetch_def fetch_open_def broker_def idle_def classify_def marshal_def)
  have tm: "\<And>k. Heartbeat \<lparr>Expires = 29990000000, Batch = 1, MaxBytes = 0, NoWait = False,
                              Heartbeat = (50000000 :: duration)\<rparr> \<noteq> 0 \<Longrightarrow>
                Some (2::nat) = Some k \<Longrightarrow>
                length (signals_of [Lock, SubscribeSync ''_INBOX.1'',
                   PublishRequest ''ORDERS'' ''worker'' ''_INBOX.1''
                     [(''expires'', JInt 29990000000), (''batch'', JInt 1),
                      (''idle_heartbeat'', JInt 50000000)],
                   NextMsgWithContext, SendHeartbeat, NextMsgWithContext, Unlock]
                  ([] :: natsMsg list)) < k"
    by simp
  from Next_fetch_error[where timer = "Some 2", OF prep run tm] prep run
  show ?thesis by simp
qed

text \<open>Options that leave the expiry alone leave it alone together.\<close>

lemma apply_opts_Expires:
  "apply_opts opts r = Inr r' \<Longrightarrow>
   \<forall>opt\<in>set opts. \<forall>a b. opt a = Inr b \<longrightarrow> Expires b = Expires a \<Longrightarrow>
   Expires r' = Expires r"
proof (induction opts arbitrary: r)
  case Nil
  then show ?case by simp
next
  case (Cons opt opts)
  then show ?case by (cases "opt r") auto
qed

text \<open>From 20 milliseconds on, taking 10 milliseconds off does not wrap.\<close>

lemma margin_no_wrap:
  fixes t :: duration
  assumes "sint (20 * Millisecond) \<le> sint t"
  shows "sint (t - 10 * Millisecond) = sint t - 10000000"
proof -
  have lo: "20000000 \<le> sint t"
    using assms by (simp add: Millisecond_def)
  have hi: "sint t < 2 ^ 63"
    using sint_lt[of t] by simp
  have "sint (t - 10 * Millisecond) = signed_take_bit 63 (sint t - 10000000)"
    by (simp add: sint_word_ariths Millisecond_def)
  also have "\<dots> = sint t - 10000000"
    using lo hi by (intro signed_take_bit_int_eq_self) auto
  finally show ?thesis .
qed

text \<open>
  Claim C8, as stated, fails: with 15 milliseconds left the request is built with
  \<open>Expires = 0\<close>, not with the 5 milliseconds that the subtraction would give.
\<close>

theorem Next_expires_counterexample:
  "Next_prepare \<lparr>untilDeadline = Some (15 * Millisecond)\<rparr> [] 1 idle =
     (Returned (Inr (\<lparr>Expires = 0, Batch = 1, MaxBytes = 0, NoWait = False, Heartbeat = 0\<rparr>,
                     15 * Millisecond)),
      idle\<lparr>heartbeat := Some 1\<rparr>, [Lock, LoadStreaming, Unlock]) \<and>
   (0 :: duration) \<noteq> 15 * Millisecond - 10 * Millisecond"
  by (simp add: Next_prepare_def Next_timeout_def Next_request_def idle_def Millisecond_def)

text \<open>
  Claim C8, amended. The timeout of a \<^verbatim>\<open>Next\<close> call is the time left until the
  deadline of the caller's context, or 30 seconds when it has none. With options
  that leave the expiry alone, the request's \<open>Expires\<close> is the timeout minus 10
  milliseconds (without wrap-around) when the timeout is at least 20
  milliseconds, and 0 when it is shorter.
\<close>

theorem Next_timeout_and_expires:
  assumes "Next_prepare ctx opts ch p = (Returned (Inr (req, timeout)), p1, tr1)"
    and "\<forall>opt\<in>set opts. \<forall>a b. opt a = Inr b \<longrightarrow> Expires b = Expires a"
  shows "timeout = (case untilDeadline ctx of None \<Rightarrow> 30 * Second | Some d \<Rightarrow> d) \<and>
         (sint (20 * Millisecond) \<le> sint timeout \<longrightarrow>
            Expires req = timeout - 10 * Millisecond \<and>
            sint (Expires req) = sint timeout - 10000000) \<and>
         (sint timeout < sint (20 * Millisecond) \<longrightarrow> Expires req = 0)"
proof -
  from assms(1) have t: "timeout = Next_timeout ctx"
    and ao: "apply_opts opts (Next_request timeout) = Inr req"
    by (auto simp: Next_prepare_def Let_def split: if_splits sum.splits)
  from apply_opts_Expires[OF ao assms(2)]
  have e: "Expires req = Expires (Next_request timeout)" .
  have "sint (20 * Millisecond) \<le> sint timeout \<longrightarrow>
          Expires req = timeout - 10 * Millisecond \<and>
          sint (Expires req) = sint timeout - 10000000"
    using e margin_no_wrap[of timeout] by (simp add: Next_request_def)
  moreover have "sint timeout < sint (20 * Millisecond) \<longrightarrow> Expires req = 0"
    using e by (simp add: Next_request_def)
  moreover have "timeout = (case untilDeadline ctx of None \<Rightarrow> 30 * Second | Some d \<Rightarrow> d)"
    using t by (simp add: Next_timeout_def)
  ultimately show ?thesis by blast
qed

theorem Next_timeout_and_expires_witness:
  "Next_prepare \<lparr>untilDeadline = Some (25 * Millisecond)\<rparr> [WithNoWait] 1 idle =
     (Returned (Inr (\<lparr>Expires = 15 * Millisecond, Batch = 1, MaxBytes = 0, NoWait = True,
                       Heartbeat = 0\<rparr>, 25 * Millisecond)),
      idle\<lparr>heartbeat := Some 1\<rparr>, [Lock, LoadStreaming, Unlock]) \<and>
   sint (20 * Millisecond :: duration) \<le> sint (25 * Millisecond :: duration) \<and>
   sint (15 * Millisecond :: duration) = sint (25 * Millisecond :: duration) - 10000000"
proof -
  have prep: "Next_prepare \<lparr>untilDeadline = Some (25 * Millisecond)\<rparr> [WithNoWait] 1 idle =
     (Returned (Inr (\<lparr>Expires = 15 * Millisecond, Batch = 1, MaxBytes = 0, NoWait = True,
                       Heartbeat = 0\<rparr>, 25 * Millisecond)),
      idle\<lparr>heartbeat := Some 1\<rparr>, [Lock, LoadStreaming, Unlock])"
    by (simp add: Next_prepare_def Next_timeout_def Next_request_def idle_def Millisecond_def
        WithNoWait_def)
  have keep: "\<forall>opt\<in>set [WithNoWait]. \<forall>a b. opt a = Inr b \<longrightarrow> Expires b = Expires a"
    by (auto simp: WithNoWait_def)
  have ge: "sint (20 * Millisecond :: duration) \<le> sint (25 * Millisecond :: duration)"
    by (simp add: Millisecond_def)
  from Next_timeout_and_expires[OF prep keep] prep keep ge show ?thesis by simp
qed






section \<open>Properties of Stream\<close>

text \<open>The call of \<^verbatim>\<open>Unsubscribe\<close> returns, whatever the subscription.\<close>

lemma unsubscribe_returns [simp]: "unsubscribe sub = Returned ()"
  by (cases sub) (simp_all add: unsubscribe_def)

lemma after_fetch_cases:
  "after_fetch res = AtSelect \<or> (\<exists>e. after_fetch res = SendingErr e)"
  by (auto simp: after_fetch_def split: option.splits)

lemma fetching_after_fetch [simp]: "fetching (after_fetch res) = None"
  by (auto simp: after_fetch_def split: option.splits)

lemma in_flight_after_fetch [simp]: "in_flight (after_fetch res) = []"
  by (auto simp: after_fetch_def split: option.splits)

lemma delivered_append: "delivered (a @ b) = delivered a @ delivered b"
  by (simp add: delivered_def)

text \<open>Every step keeps the bound.\<close>

lemma bounded_step:
  assumes "bounded s" and "step cm tj a s = Some s'"
  shows "bounded s'"
proof (cases a)
  case (FetcherSelect net)
  with assms show ?thesis
    by (auto simp: bounded_def split: if_splits prod.splits option.splits outcome.splits)
next
  case (FetcherReceive r)
  with assms show ?thesis
    by (cases "fetcher s"; cases "classify cm tj r")
       (auto simp: bounded_def split: if_splits)
next
  case FetcherSend
  with assms show ?thesis
    by (cases "fetcher s") (auto simp: bounded_def split: if_splits)
next
  case TakeMsg
  with assms show ?thesis
    by (cases "pending s")
       (auto simp: bounded_def split: if_splits option.splits)
next
  case TakeErr
  with assms show ?thesis
    by (cases "errs s") (auto simp: bounded_def split: if_splits)
next
  case TakeHeartbeat
  with assms show ?thesis
    by (cases "fetcher s") (auto simp: bounded_def split: if_splits)
next
  case TimerFires
  with assms show ?thesis by (auto simp: bounded_def split: if_splits)
next
  case CtxDone
  with assms show ?thesis by (auto simp: bounded_def split: if_splits)
next
  case DispatcherCancel
  with assms show ?thesis by (auto simp: bounded_def split: if_splits)
next
  case DispatcherTeardown
  with assms show ?thesis
    by (auto simp: bounded_def split: if_splits prod.splits outcome.splits)
next
  case CallerCancel
  with assms show ?thesis by (auto simp: bounded_def)
qed

text \<open>Every step keeps the account of the messages.\<close>

lemma accounted_step:
  assumes "accounted s" and "step cm tj a s = Some s'"
  shows "accounted s'"
proof (cases a)
  case (FetcherSelect net)
  with assms show ?thesis
    by (auto simp: accounted_def split: if_splits prod.splits option.splits outcome.splits)
next
  case (FetcherReceive r)
  with assms show ?thesis
    by (cases "fetcher s"; cases "classify cm tj r")
       (auto simp: accounted_def split: if_splits)
next
  case FetcherSend
  with assms show ?thesis
    by (cases "fetcher s") (auto simp: accounted_def split: if_splits)
next
  case TakeMsg
  with assms show ?thesis
    by (cases "pending s")
       (auto simp: accounted_def delivered_append delivered_def split: if_splits)
next
  case TakeErr
  with assms show ?thesis
    by (cases "errs s") (auto simp: accounted_def delivered_append delivered_def split: if_splits)
next
  case TakeHeartbeat
  with assms show ?thesis
    by (cases "fetcher s") (auto simp: accounted_def split: if_splits)
next
  case TimerFires
  with assms show ?thesis
    by (auto simp: accounted_def delivered_append delivered_def split: if_splits)
next
  case CtxDone
  with assms show ?thesis by (auto simp: accounted_def split: if_splits)
next
  case DispatcherCancel
  with assms show ?thesis by (auto simp: accounted_def split: if_splits)
next
  case DispatcherTeardown
  with assms show ?thesis
    by (auto simp: accounted_def split: if_splits prod.splits outcome.splits)
next
  case CallerCancel
  with assms show ?thesis by (auto simp: accounted_def)
qed

lemma request_step: "step cm tj a s = Some s' \<Longrightarrow> request s' = request s"
  by (cases a)
     (auto split: if_splits prod.splits option.splits outcome.splits fetcher.splits
                  reply.splits list.splits)

text \<open>What every step keeps, every run keeps.\<close>

lemma run_invariant:
  assumes "\<And>s a s'. P s \<Longrightarrow> step cm tj a s = Some s' \<Longrightarrow> P s'"
    and "P s" and "run cm tj as s = Some s'"
  shows "P s'"
  using assms(2,3)
proof (induction as arbitrary: s)
  case Nil
  then show ?case by simp
next
  case (Cons a as)
  then show ?case using assms(1) by (auto split: option.splits)
qed

text \<open>
  Doubling a batch size that is not negative either gives twice its value or
  wraps to a negative size, for which \<^verbatim>\<open>make\<close> panics.
\<close>

lemma double_no_wrap:
  fixes b :: goint
  assumes "\<not> sint (2 * b) < 0" and "0 \<le> sint b"
  shows "sint (2 * b) = 2 * sint b"
proof -
  have eq: "sint (2 * b) = signed_take_bit 63 (2 * sint b)"
    by (simp add: sint_word_ariths)
  have hi: "sint b < 2 ^ 63"
    using sint_lt[of b] by simp
  show ?thesis
  proof (cases "2 * sint b < 2 ^ 63")
    case True
    with assms(2) have "signed_take_bit 63 (2 * sint b) = 2 * sint b"
      by (intro signed_take_bit_int_eq_self) auto
    with eq show ?thesis by simp
  next
    case False
    then have "2 ^ 63 \<le> 2 * sint b" by simp
    from signed_take_bit_int_less_eq[OF this]
    have "signed_take_bit 63 (2 * sint b) \<le> 2 * sint b - 2 ^ 64" by simp
    moreover have "2 * sint b - 2 ^ 64 < 0" using hi by simp
    ultimately have "sint (2 * b) < 0" unfolding eq by linarith
    with assms(1) show ?thesis by blast
  qed
qed

lemma Stream_bounded:
  assumes "Stream handler opts ch p = (Returned (Inr s0), p', tr)"
    and "0 \<le> sint (Batch (request s0))"
  shows "bounded s0" and "accounted s0"
proof -
  from assms(1) obtain req where
    s0: "s0 = \<lparr>consumer = p\<lparr>heartbeat := Some ch, isStreaming := 1\<rparr>, request = req,
               pending = [], capacity = nat (sint (2 * Batch req)), errs = [],
               cancelled = False, handled = [], fetched = [],
               fetcher = AtSelect, dispatcher = Selecting\<rparr>"
    and nn: "\<not> sint (2 * Batch req) < 0"
    by (auto simp: Stream_def Let_def split: if_splits sum.splits)
  from assms(2) s0 have "0 \<le> sint (Batch req)" by simp
  from double_no_wrap[OF nn this] s0 assms(2) show "bounded s0"
    by (simp add: bounded_def)
  from s0 show "accounted s0"
    by (simp add: accounted_def delivered_def)
qed

lemma in_flight_fetching:
  "fetching f = None \<Longrightarrow> in_flight f = []"
  by (cases f) auto

lemma fetching_length: "length (in_flight f) \<le> 1"
  by (cases f) auto

text \<open>
  Claim C7. For a stream that was started with a batch size that is not
  negative, in every state that any interleaving of the two goroutines reaches:
  the capacity of \<^verbatim>\<open>pending\<close> is exactly twice the batch size; the messages
  fetched and not yet handed to the handler (those pending and the one being
  sent) never exceed it; every message fetched is accounted for, in order, so none
  is dropped; the send on \<^verbatim>\<open>pending\<close> always finds room; and with \<open>Batch\<close> or
  more messages pending the fetch loop does not call \<^verbatim>\<open>fetch\<close>.
\<close>

theorem pending_bounded:
  fixes toJSMsg :: "'m \<Rightarrow> 'j"
  assumes "Stream handler opts ch p = (Returned (Inr s0), p', tr)"
    and "0 \<le> sint (Batch (request s0))"
    and "run checkMsg toJSMsg as s0 = Some s"
  shows "request s = request s0 \<and>
         capacity s = nat (2 * sint (Batch (request s))) \<and>
         length (pending s) + length (in_flight (fetcher s)) \<le> capacity s \<and>
         fetched s = delivered (handled s) @ pending s @ in_flight (fetcher s) \<and>
         (\<forall>j c. fetcher s = SendingTarget j c \<longrightarrow>
                  step checkMsg toJSMsg FetcherSend s \<noteq> None) \<and>
         (\<forall>net s'. \<not> int (length (pending s)) < sint (Batch (request s)) \<longrightarrow>
                  step checkMsg toJSMsg (FetcherSelect net) s = Some s' \<longrightarrow>
                  s' = s \<or> s' = s\<lparr>fetcher := FetcherExited\<rparr>)"
proof -
  have b: "bounded s"
  proof (rule run_invariant[where P = bounded, OF _ _ assms(3)])
    show "bounded s0" by (rule Stream_bounded(1)[OF assms(1,2)])
  qed (rule bounded_step)
  have a: "accounted s"
  proof (rule run_invariant[where P = accounted, OF _ _ assms(3)])
    show "accounted s0" by (rule Stream_bounded(2)[OF assms(1,2)])
  qed (rule accounted_step)
  have r: "request s = request s0"
  proof (rule run_invariant[where P = "\<lambda>x. request x = request s0", OF _ _ assms(3)])
    show "request s0 = request s0" by simp
  qed (simp add: request_step)
  have cap: "capacity s = nat (2 * sint (Batch (request s)))"
    using b by (simp add: bounded_def)
  have room: "length (pending s) + length (in_flight (fetcher s)) \<le> capacity s"
  proof (cases "fetching (fetcher s)")
    case None
    with b in_flight_fetching[OF None] show ?thesis
      by (auto simp: bounded_def)
  next
    case (Some c)
    with b fetching_length[of "fetcher s"] show ?thesis
      by (auto simp: bounded_def)
  qed
  have send: "\<forall>j c. fetcher s = SendingTarget j c \<longrightarrow>
                  step checkMsg toJSMsg FetcherSend s \<noteq> None"
    using room by auto
  have sel: "\<forall>net s'. \<not> int (length (pending s)) < sint (Batch (request s)) \<longrightarrow>
                  step checkMsg toJSMsg (FetcherSelect net) s = Some s' \<longrightarrow>
                  s' = s \<or> s' = s\<lparr>fetcher := FetcherExited\<rparr>"
    by (auto split: if_splits)
  from r cap room a send sel show ?thesis
    by (simp add: accounted_def)
qed

theorem pending_bounded_witness:
  "Stream True [WithStreamHeartbeat (50 * Millisecond), WithBatchSize 2] 1 idle =
     (Returned (Inr started), idle\<lparr>heartbeat := Some 1, isStreaming := 1\<rparr>,
      [LoadStreaming, StoreStreaming 1]) \<and>
   0 \<le> sint (Batch (request started)) \<and>
   run checkMsg_status id
     [FetcherSelect (broker []), FetcherReceive (Inr (UserMsg ''a'')), FetcherSend, TakeMsg,
      FetcherReceive (Inr (UserMsg ''b'')), FetcherSend, FetcherSelect (broker []),
      FetcherReceive (Inr (UserMsg ''c''))] started =
     Some (started\<lparr>consumer := idle\<lparr>heartbeat := Some 1, isStreaming := 1,
                                      subscription := Some \<lparr>Subject = ''_INBOX.1''\<rparr>,
                                      locked := True\<rparr>,
                    pending := [UserMsg ''b''],
                    handled := [(Some (UserMsg ''a''), None)],
                    fetched := [UserMsg ''a'', UserMsg ''b'', UserMsg ''c''],
                    fetcher := SendingTarget (UserMsg ''c'') 0\<rparr>) \<and>
   length [UserMsg ''b''] + length (in_flight (SendingTarget (UserMsg ''c'') 0)) \<le> (4::nat) \<and>
   [UserMsg ''a'', UserMsg ''b'', UserMsg ''c''] =
     delivered [(Some (UserMsg ''a''), None)] @ [UserMsg ''b''] @
     in_flight (SendingTarget (UserMsg ''c'') 0)"
proof -
  have st: "Stream True [WithStreamHeartbeat (50 * Millisecond), WithBatchSize 2] 1 idle =
     (Returned (Inr started), idle\<lparr>heartbeat := Some 1, isStreaming := 1\<rparr>,
      [LoadStreaming, StoreStreaming 1])"
    by (simp add: Stream_def Stream_request_def WithStreamHeartbeat_def WithBatchSize_def
        started_def idle_def Let_def)
  have b: "0 \<le> sint (Batch (request started))"
    by (simp add: started_def)
  have r: "run checkMsg_status id
     [FetcherSelect (broker []), FetcherReceive (Inr (UserMsg ''a'')), FetcherSend, TakeMsg,
      FetcherReceive (Inr (UserMsg ''b'')), FetcherSend, FetcherSelect (broker []),
      FetcherReceive (Inr (UserMsg ''c''))] started =
     Some (started\<lparr>consumer := idle\<lparr>heartbeat := Some 1, isStreaming := 1,
                                      subscription := Some \<lparr>Subject = ''_INBOX.1''\<rparr>,
                                      locked := True\<rparr>,
                    pending := [UserMsg ''b''],
                    handled := [(Some (UserMsg ''a''), None)],
                    fetched := [UserMsg ''a'', UserMsg ''b'', UserMsg ''c''],
                    fetcher := SendingTarget (UserMsg ''c'') 0\<rparr>)"
    by (simp add: started_def idle_def broker_def fetch_open_def classify_def after_fetch_def
        Millisecond_def Second_def)
  from pending_bounded[OF st b r] st b r show ?thesis
    by (simp add: started_def)
qed

text \<open>
  The steps and the loop of \<^verbatim>\<open>fetch\<close> agree: where the loop of \<^verbatim>\<open>fetch\<close>, run on
  some replies with what is pending as its target, ends with a result and a
  target, the steps of that fetch, taken undisturbed and with room on
  \<^verbatim>\<open>pending\<close>, end with that target pending, the mutex released, and the fetch
  goroutine where that result takes it.
\<close>

lemma classify_Inl [simp]: "classify cm tj (Inl e) = Fail e"
  by (simp add: classify_def)

lemma run_append:
  "run cm tj (as @ bs) s = (case run cm tj as s of None \<Rightarrow> None | Some s' \<Rightarrow> run cm tj bs s')"
  by (induction as arbitrary: s) (auto split: option.splits)

lemma fetch_alone:
  fixes toJSMsg :: "'m \<Rightarrow> 'j"
  assumes "fetch_loop checkMsg toJSMsg (request s) cerr count rs (pending s) tr = (res, target', tr')"
    and "fetcher s = Receiving count" and "dispatcher s = Selecting"
    and "int count < sint (Batch (request s))"
    and "int (length (pending s)) + (sint (Batch (request s)) - int count) \<le> int (capacity s)"
  shows "\<exists>s'. run checkMsg toJSMsg (alone checkMsg toJSMsg (request s) cerr count rs) s = Some s' \<and>
              pending s' = target' \<and> fetcher s' = after_fetch res \<and>
              \<not> locked (consumer s') \<and> handled s' = handled s \<and> errs s' = errs s"
  using assms
proof (induction rs arbitrary: s count tr)
  case Nil
  then show ?case by (auto simp: after_fetch_def)
next
  case (Cons r rs)
  show ?case
  proof (cases "classify checkMsg toJSMsg r")
    case (Fail e)
    with Cons.prems show ?thesis by auto
  next
    case Control
    define s1 where "s1 = (if Heartbeat (request s) \<noteq> 0
                           then s\<lparr>fetcher := SendingHeartbeat count\<rparr> else s)"
    have st: "run checkMsg toJSMsg
                (FetcherReceive r # (if Heartbeat (request s) \<noteq> 0 then [TakeHeartbeat] else [])) s
              = Some (s\<lparr>fetcher := Receiving count\<rparr>)"
      using Control Cons.prems(2,3) by simp
    have same: "s\<lparr>fetcher := Receiving count\<rparr> = s"
      using Cons.prems(2) by simp
    from Control Cons.prems(1,4)
    have loop: "fetch_loop checkMsg toJSMsg (request s) cerr count rs (pending s)
                  (tr @ [NextMsgWithContext] @
                     (if Heartbeat (request s) \<noteq> 0 then [SendHeartbeat] else []))
                = (res, target', tr')" by simp
    from Cons.IH[OF loop Cons.prems(2,3,4,5)]
    obtain s' where "run checkMsg toJSMsg (alone checkMsg toJSMsg (request s) cerr count rs) s = Some s'"
      and "pending s' = target'" "fetcher s' = after_fetch res" "\<not> locked (consumer s')"
      "handled s' = handled s" "errs s' = errs s"
      by blast
    moreover have "alone checkMsg toJSMsg (request s) cerr count (r # rs) =
        (FetcherReceive r # (if Heartbeat (request s) \<noteq> 0 then [TakeHeartbeat] else [])) @
        alone checkMsg toJSMsg (request s) cerr count rs"
      using Control Cons.prems(4) by simp
    ultimately show ?thesis
      using st same by (simp only: run_append option.case) simp
  next
    case (User j)
    from User Cons.prems(1,4)
    have loop: "fetch_loop checkMsg toJSMsg (request s) cerr (Suc count) rs (pending s @ [j])
                  (tr @ [NextMsgWithContext, SendTarget]) = (res, target', tr')" by simp
    have room: "length (pending s) < capacity s"
      using Cons.prems(4,5) by linarith
    show ?thesis
    proof (cases "int (Suc count) < sint (Batch (request s))")
      case True
      define s2 where "s2 = s\<lparr>fetched := fetched s @ [j], pending := pending s @ [j],
                               fetcher := Receiving (Suc count)\<rparr>"
      have st: "run checkMsg toJSMsg [FetcherReceive r, FetcherSend] s = Some s2"
        using User Cons.prems(2) room True by (simp add: s2_def)
      have l2: "fetch_loop checkMsg toJSMsg (request s2) cerr (Suc count) rs (pending s2)
                  (tr @ [NextMsgWithContext, SendTarget]) = (res, target', tr')"
        using loop by (simp add: s2_def)
      have p2: "fetcher s2 = Receiving (Suc count)" "dispatcher s2 = Selecting"
        "int (Suc count) < sint (Batch (request s2))"
        "int (length (pending s2)) + (sint (Batch (request s2)) - int (Suc count))
           \<le> int (capacity s2)"
        using Cons.prems(3,5) True by (simp_all add: s2_def)
      from Cons.IH[OF l2 p2]
      obtain s' where "run checkMsg toJSMsg (alone checkMsg toJSMsg (request s2) cerr (Suc count) rs) s2 = Some s'"
        and "pending s' = target'" "fetcher s' = after_fetch res" "\<not> locked (consumer s')"
        "handled s' = handled s2" "errs s' = errs s2"
        by blast
      moreover have "request s2 = request s" "handled s2 = handled s" "errs s2 = errs s"
        by (simp_all add: s2_def)
      moreover have "alone checkMsg toJSMsg (request s) cerr count (r # rs) =
          [FetcherReceive r, FetcherSend] @ alone checkMsg toJSMsg (request s) cerr (Suc count) rs"
        using User Cons.prems(4) by simp
      ultimately show ?thesis
        using st by (simp only: run_append option.case) simp
    next
      case False
      from False loop have e: "res = None" "target' = pending s @ [j]"
        by (cases rs; simp)+
      define s2 where "s2 = s\<lparr>fetched := fetched s @ [j], pending := pending s @ [j],
                               consumer := (consumer s)\<lparr>locked := False\<rparr>,
                               fetcher := (after_fetch None :: 'j fetcher)\<rparr>"
      have st: "run checkMsg toJSMsg [FetcherReceive r, FetcherSend] s = Some s2"
        using User Cons.prems(2) room False by (simp add: s2_def)
      have al: "alone checkMsg toJSMsg (request s) cerr (Suc count) rs = []"
        using False by (cases rs) simp_all
      have "alone checkMsg toJSMsg (request s) cerr count (r # rs) =
          [FetcherReceive r, FetcherSend]"
        using User Cons.prems(4) al by simp
      with st e Cons.prems show ?thesis
        by (simp only:) (simp add: s2_def)
    qed
  qed
qed

section \<open>Busy handles\<close>

text \<open>
  Claim C2, as stated, fails for \<^verbatim>\<open>Next\<close>. One step of the fetch goroutine of
  a stream takes the consumer to a state in which the streaming flag is set and
  the mutex is held (\<^verbatim>\<open>fetch\<close> holds it while it waits for replies). There,
  \<^verbatim>\<open>Next\<close> does not return \<open>ErrConsumerHasActiveSubscription\<close>: it waits at
  \<^verbatim>\<open>p.Lock()\<close>, which comes before the check of the flag.
\<close>

theorem Next_busy_counterexample:
  "step checkMsg_status id (FetcherSelect (broker [])) started = Some (started\<lparr>consumer := busy, fetcher := Receiving 0\<rparr>) \<and>
   isStreaming busy = 1 \<and>
   Next checkMsg_status id \<lparr>untilDeadline = None\<rparr> [] 2 (broker [UserMsg ''a'']) None busy =
     (Blocked, busy, [])"
  by (simp add: started_def busy_def idle_def broker_def fetch_open_def Next_def Next_prepare_def)

text \<open>
  Claim C2, amended. In every state of the handle in which the streaming flag is
  set, \<^verbatim>\<open>Stream\<close> returns \<open>ErrConsumerHasActiveSubscription\<close> at once, the load of
  the flag being all it does; \<^verbatim>\<open>Next\<close> first takes the mutex of the handle,
  waiting while it is held, then loads the flag, releases the mutex and returns
  \<open>ErrConsumerHasActiveSubscription\<close>. Neither calls the connection or the
  subscription, and neither changes a field of the consumer.
\<close>

theorem busy_rejected:
  fixes toJSMsg :: "'m \<Rightarrow> 'j" and handler :: bool
  assumes "isStreaming p = 1"
  shows "(Stream handler sopts ch p :: (error + 'j streaming) outcome \<times> pullConsumer \<times> effect list) =
           (Returned (Inl ErrConsumerHasActiveSubscription), p, [LoadStreaming]) \<and>
         (\<not> locked p \<longrightarrow>
            Next checkMsg toJSMsg ctx nopts ch net timer p =
              (Returned (None, Some ErrConsumerHasActiveSubscription), p,
               [Lock, LoadStreaming, Unlock])) \<and>
         (locked p \<longrightarrow> Next checkMsg toJSMsg ctx nopts ch net timer p = (Blocked, p, []))"
  using assms by (simp add: Stream_def Next_def Next_prepare_def)

theorem busy_rejected_witness:
  "isStreaming (idle\<lparr>isStreaming := 1\<rparr>) = 1 \<and>
   (Stream True [] 2 (idle\<lparr>isStreaming := 1\<rparr>)
      :: (error + natsMsg streaming) outcome \<times> pullConsumer \<times> effect list) =
     (Returned (Inl ErrConsumerHasActiveSubscription), idle\<lparr>isStreaming := 1\<rparr>,
      [LoadStreaming]) \<and>
   Next checkMsg_status id \<lparr>untilDeadline = None\<rparr> [] 2 (broker [UserMsg ''a'']) None
     (idle\<lparr>isStreaming := 1\<rparr>) =
     (Returned (None, Some ErrConsumerHasActiveSubscription), idle\<lparr>isStreaming := 1\<rparr>,
      [Lock, LoadStreaming, Unlock])"
proof -
  have f: "isStreaming (idle\<lparr>isStreaming := 1\<rparr>) = 1" by simp
  have u: "\<not> locked (idle\<lparr>isStreaming := 1\<rparr>)" by (simp add: idle_def)
  from busy_rejected[OF f, of True "[]" 2 checkMsg_status id "\<lparr>untilDeadline = None\<rparr>" "[]"
      "broker [UserMsg ''a'']" None] f u
  show ?thesis by simp
qed

section \<open>Teardown\<close>

text \<open>
  Claim C6, as stated, fails in three places. The teardown that the dispatch
  goroutine runs on the loss of the heartbeat clears the streaming flag after it
  has released the mutex, not while holding it. An error handed to the handler
  triggers no teardown: the subscription stays and the flag stays set. And the
  teardown of \<^verbatim>\<open>Next\<close> on the loss of the heartbeat does not touch the streaming
  flag.
\<close>

theorem teardown_counterexample:
  "run checkMsg_status id [TimerFires, DispatcherCancel, DispatcherTeardown] failing =
     Some (failing\<lparr>handled := [(None, Some ErrNoHeartbeat)], cancelled := True,
                    consumer := idle\<lparr>heartbeat := Some 1\<rparr>,
                    dispatcher := DispatcherExited\<rparr>) \<and>
   Stream_teardown (consumer failing) =
     (Returned (idle\<lparr>heartbeat := Some 1\<rparr>),
      [Lock, Unsubscribe, ClearSubscription, Unlock, StoreStreaming 0]) \<and>
   outside False [Lock, Unsubscribe, ClearSubscription, Unlock, StoreStreaming 0] =
     [StoreStreaming 0] \<and>
   step checkMsg_status id TakeErr failing =
     Some (failing\<lparr>errs := [],
                    handled := [(None, Some (TransportError ''connection closed''))]\<rparr>) \<and>
   subscription (consumer failing) = Some \<lparr>Subject = ''_INBOX.1''\<rparr> \<and>
   isStreaming (consumer failing) = 1 \<and>
   Next_wait \<lparr>Expires = 0, Batch = 1, MaxBytes = 0, NoWait = False,
              Heartbeat = 50 * Millisecond\<rparr>
     (idle\<lparr>subscription := Some \<lparr>Subject = ''_INBOX.1''\<rparr>, isStreaming := 1\<rparr>)
     [FromTimer :: natsMsg signal] =
     (Returned (None, Some ErrNoHeartbeat), idle\<lparr>isStreaming := 1\<rparr>,
      [Lock, Unsubscribe, ClearSubscription, Unlock])"
  by (simp add: failing_def started_def busy_def idle_def Stream_teardown_def
      drop_subscription_def Millisecond_def)

text \<open>
  Claim C6, amended. The teardown is idempotent for every trigger the code has,
  which are the loss of the heartbeat (in \<^verbatim>\<open>Next\<close> and in \<^verbatim>\<open>Stream\<close>) and the
  cancellation of the context (in \<^verbatim>\<open>Stream\<close>): it waits for the mutex of the
  handle, unsubscribes and sets the subscription to nil while holding it, and in
  \<^verbatim>\<open>Stream\<close> then clears the streaming flag, after the mutex is released;
  performed when the subscription is nil already, it neither fails nor panics and
  leaves the consumer as the first teardown left it.
\<close>

theorem teardown_idempotent:
  fixes toJSMsg :: "'m \<Rightarrow> 'j" and s :: "'j streaming" and sigs :: "'j signal list"
  assumes "Heartbeat req \<noteq> 0" and "\<not> locked p"
    and "dispatcher s = Selecting" and "\<not> locked (consumer s)"
  shows "Next_wait req p (FromTimer # sigs) =
           (Returned (None, Some ErrNoHeartbeat), p\<lparr>subscription := None\<rparr>,
            [Lock, Unsubscribe, ClearSubscription, Unlock]) \<and>
         Next_wait req (p\<lparr>subscription := None\<rparr>) (FromTimer # sigs) =
           (Returned (None, Some ErrNoHeartbeat), p\<lparr>subscription := None\<rparr>,
            [Lock, Unsubscribe, ClearSubscription, Unlock]) \<and>
         Next_wait req (p\<lparr>locked := True\<rparr>) (FromTimer # sigs) =
           (Blocked, p\<lparr>locked := True\<rparr>, []) \<and>
         outside False [Lock, Unsubscribe, ClearSubscription, Unlock] = [] \<and>
         (Heartbeat (request s) \<noteq> 0 \<longrightarrow>
            run checkMsg toJSMsg [TimerFires, DispatcherCancel, DispatcherTeardown] s =
              Some (s\<lparr>handled := handled s @ [(None, Some ErrNoHeartbeat)],
                      cancelled := True,
                      consumer := (consumer s)\<lparr>subscription := None, isStreaming := 0\<rparr>,
                      dispatcher := DispatcherExited\<rparr>)) \<and>
         run checkMsg toJSMsg [CallerCancel, CtxDone, DispatcherTeardown] s =
           Some (s\<lparr>cancelled := True,
                   consumer := (consumer s)\<lparr>subscription := None, isStreaming := 0\<rparr>,
                   dispatcher := DispatcherExited\<rparr>) \<and>
         run checkMsg toJSMsg [CallerCancel, CtxDone, DispatcherTeardown]
             (s\<lparr>consumer := (consumer s)\<lparr>subscription := None, isStreaming := 0\<rparr>\<rparr>) =
           Some (s\<lparr>cancelled := True,
                   consumer := (consumer s)\<lparr>subscription := None, isStreaming := 0\<rparr>,
                   dispatcher := DispatcherExited\<rparr>) \<and>
         step checkMsg toJSMsg DispatcherTeardown
             (s\<lparr>consumer := (consumer s)\<lparr>locked := True\<rparr>, dispatcher := Tearing\<rparr>) = None \<and>
         Stream_teardown (consumer s) =
           (Returned ((consumer s)\<lparr>subscription := None, isStreaming := 0\<rparr>),
            [Lock, Unsubscribe, ClearSubscription, Unlock, StoreStreaming 0]) \<and>
         outside False [Lock, Unsubscribe, ClearSubscription, Unlock, StoreStreaming 0] =
           [StoreStreaming 0]"
proof -
  have n1: "Next_wait req p (FromTimer # sigs) =
           (Returned (None, Some ErrNoHeartbeat), p\<lparr>subscription := None\<rparr>,
            [Lock, Unsubscribe, ClearSubscription, Unlock])"
    using assms(1,2) by (simp add: drop_subscription_def)
  have n2: "Next_wait req (p\<lparr>subscription := None\<rparr>) (FromTimer # sigs) =
           (Returned (None, Some ErrNoHeartbeat), p\<lparr>subscription := None\<rparr>,
            [Lock, Unsubscribe, ClearSubscription, Unlock])"
    using assms(1,2) by (simp add: drop_subscription_def)
  have n3: "Next_wait req (p\<lparr>locked := True\<rparr>) (FromTimer # sigs) =
           (Blocked, p\<lparr>locked := True\<rparr>, [])"
    using assms(1) by (simp add: drop_subscription_def)
  have td: "Stream_teardown (consumer s) =
           (Returned ((consumer s)\<lparr>subscription := None, isStreaming := 0\<rparr>),
            [Lock, Unsubscribe, ClearSubscription, Unlock, StoreStreaming 0])"
    using assms(4) by (simp add: Stream_teardown_def drop_subscription_def)
  have td2: "Stream_teardown ((consumer s)\<lparr>subscription := None, isStreaming := 0\<rparr>) =
           (Returned ((consumer s)\<lparr>subscription := None, isStreaming := 0\<rparr>),
            [Lock, Unsubscribe, ClearSubscription, Unlock, StoreStreaming 0])"
    using assms(4) by (simp add: Stream_teardown_def drop_subscription_def)
  have r1: "Heartbeat (request s) \<noteq> 0 \<longrightarrow>
            run checkMsg toJSMsg [TimerFires, DispatcherCancel, DispatcherTeardown] s =
              Some (s\<lparr>handled := handled s @ [(None, Some ErrNoHeartbeat)],
                      cancelled := True,
                      consumer := (consumer s)\<lparr>subscription := None, isStreaming := 0\<rparr>,
                      dispatcher := DispatcherExited\<rparr>)"
    using assms(3) td by simp
  have r2: "run checkMsg toJSMsg [CallerCancel, CtxDone, DispatcherTeardown] s =
           Some (s\<lparr>cancelled := True,
                   consumer := (consumer s)\<lparr>subscription := None, isStreaming := 0\<rparr>,
                   dispatcher := DispatcherExited\<rparr>)"
    using assms(3) td by simp
  have r3: "run checkMsg toJSMsg [CallerCancel, CtxDone, DispatcherTeardown]
             (s\<lparr>consumer := (consumer s)\<lparr>subscription := None, isStreaming := 0\<rparr>\<rparr>) =
           Some (s\<lparr>cancelled := True,
                   consumer := (consumer s)\<lparr>subscription := None, isStreaming := 0\<rparr>,
                   dispatcher := DispatcherExited\<rparr>)"
    using assms(3) td2 by simp
  have w: "step checkMsg toJSMsg DispatcherTeardown
             (s\<lparr>consumer := (consumer s)\<lparr>locked := True\<rparr>, dispatcher := Tearing\<rparr>) = None"
    by (simp add: Stream_teardown_def drop_subscription_def)
  from n1 n2 n3 td r1 r2 r3 w show ?thesis by simp
qed


theorem teardown_idempotent_witness:
  "Heartbeat (batch_of 1\<lparr>Heartbeat := 50 * Millisecond\<rparr>) \<noteq> 0 \<and>
   \<not> locked (idle\<lparr>subscription := Some \<lparr>Subject = ''_INBOX.1''\<rparr>\<rparr>) \<and>
   dispatcher failing = Selecting \<and>
   \<not> locked (consumer failing) \<and>
   Next_wait (batch_of 1\<lparr>Heartbeat := 50 * Millisecond\<rparr>)
     (idle\<lparr>subscription := Some \<lparr>Subject = ''_INBOX.1''\<rparr>\<rparr>)
     [FromTimer, FromMsgChan (UserMsg ''late'')] =
     (Returned (None, Some ErrNoHeartbeat), idle,
      [Lock, Unsubscribe, ClearSubscription, Unlock]) \<and>
   Next_wait (batch_of 1\<lparr>Heartbeat := 50 * Millisecond\<rparr>) idle
     [FromTimer, FromMsgChan (UserMsg ''late'')] =
     (Returned (None, Some ErrNoHeartbeat), idle,
      [Lock, Unsubscribe, ClearSubscription, Unlock]) \<and>
   run checkMsg_status id [TimerFires, DispatcherCancel, DispatcherTeardown] failing =
     Some (failing\<lparr>handled := [(None, Some ErrNoHeartbeat)], cancelled := True,
                    consumer := idle\<lparr>heartbeat := Some 1\<rparr>,
                    dispatcher := DispatcherExited\<rparr>) \<and>
   run checkMsg_status id [CallerCancel, CtxDone, DispatcherTeardown] failing =
     Some (failing\<lparr>cancelled := True, consumer := idle\<lparr>heartbeat := Some 1\<rparr>,
                    dispatcher := DispatcherExited\<rparr>)"
proof -
  have h: "Heartbeat (batch_of 1\<lparr>Heartbeat := 50 * Millisecond\<rparr>) \<noteq> 0"
    by (simp add: Millisecond_def)
  have u: "\<not> locked (idle\<lparr>subscription := Some \<lparr>Subject = ''_INBOX.1''\<rparr>\<rparr>)"
    by (simp add: idle_def)
  have d: "dispatcher failing = Selecting"
    by (simp add: failing_def started_def)
  have l: "\<not> locked (consumer failing)"
    by (simp add: failing_def)
  have hs: "Heartbeat (request failing) \<noteq> 0"
    by (simp add: failing_def started_def Millisecond_def)
  from teardown_idempotent[OF h u d l, of "[FromMsgChan (UserMsg ''late'')]" checkMsg_status id]
    h u d l hs
  show ?thesis
    by (simp add: failing_def started_def busy_def idle_def)
qed

section \<open>Errors in the fetch loop of Stream\<close>

text \<open>
  Claim C9, as stated, fails: after a fetch that could not publish, its error is
  on \<^verbatim>\<open>errs\<close>, not yet taken by the dispatch goroutine; the next fetch cannot
  publish either, and the send of its error cannot complete.
\<close>

theorem errs_send_counterexample:
  "run checkMsg_status id [FetcherSelect closed, FetcherSend] started = Some failing \<and>
   step checkMsg_status id (FetcherSelect closed) failing =
     Some (failing\<lparr>fetcher := SendingErr (TransportError ''connection closed'')\<rparr>) \<and>
   step checkMsg_status id FetcherSend
     (failing\<lparr>fetcher := SendingErr (TransportError ''connection closed'')\<rparr>) = None"
  by (simp add: failing_def started_def busy_def idle_def closed_def broker_def fetch_open_def
      after_fetch_def)

lemma after_fetch_not_exited: "after_fetch res \<noteq> FetcherExited"
  by (simp add: after_fetch_def split: option.splits)

text \<open>
  The send on \<^verbatim>\<open>errs\<close>: with \<^verbatim>\<open>errs\<close> empty it completes and the loop is back at
  its select, from where it returns only if the context is cancelled; with an
  error on \<^verbatim>\<open>errs\<close> it has to wait.
\<close>

lemma errs_send:
  fixes toJSMsg :: "'m \<Rightarrow> 'j" and s1 :: "'j streaming"
  assumes "fetcher s1 = SendingErr err"
  shows "(errs s1 = [] \<longrightarrow>
            (\<exists>s2. step checkMsg toJSMsg FetcherSend s1 = Some s2 \<and>
                  errs s2 = [err] \<and> fetcher s2 = AtSelect \<and>
                  (\<forall>net s3. \<not> cancelled s2 \<longrightarrow>
                     step checkMsg toJSMsg (FetcherSelect net) s2 = Some s3 \<longrightarrow>
                     fetcher s3 \<noteq> FetcherExited) \<and>
                  (\<forall>net. cancelled s2 \<longrightarrow>
                     step checkMsg toJSMsg (FetcherSelect net) s2 =
                       Some (s2\<lparr>fetcher := FetcherExited\<rparr>)))) \<and>
         (errs s1 \<noteq> [] \<longrightarrow> step checkMsg toJSMsg FetcherSend s1 = None)"
proof -
  have full: "errs s1 \<noteq> [] \<longrightarrow> step checkMsg toJSMsg FetcherSend s1 = None"
    using assms by (cases "errs s1") simp_all
  have empty: "errs s1 = [] \<longrightarrow>
            (\<exists>s2. step checkMsg toJSMsg FetcherSend s1 = Some s2 \<and>
                  errs s2 = [err] \<and> fetcher s2 = AtSelect \<and>
                  (\<forall>net s3. \<not> cancelled s2 \<longrightarrow>
                     step checkMsg toJSMsg (FetcherSelect net) s2 = Some s3 \<longrightarrow>
                     fetcher s3 \<noteq> FetcherExited) \<and>
                  (\<forall>net. cancelled s2 \<longrightarrow>
                     step checkMsg toJSMsg (FetcherSelect net) s2 =
                       Some (s2\<lparr>fetcher := FetcherExited\<rparr>)))"
  proof
    assume em: "errs s1 = []"
    define s2 where "s2 = s1\<lparr>errs := [err], fetcher := (AtSelect :: 'j fetcher)\<rparr>"
    have s: "step checkMsg toJSMsg FetcherSend s1 = Some s2"
      using assms em by (simp add: s2_def)
    have a: "errs s2 = [err]" "fetcher s2 = AtSelect" by (simp_all add: s2_def)
    have go: "\<forall>net s3. \<not> cancelled s2 \<longrightarrow>
                 step checkMsg toJSMsg (FetcherSelect net) s2 = Some s3 \<longrightarrow>
                 fetcher s3 \<noteq> FetcherExited"
      using a(2) after_fetch_not_exited
      by (auto split: if_splits prod.splits option.splits outcome.splits)
    have stop: "\<forall>net. cancelled s2 \<longrightarrow>
                  step checkMsg toJSMsg (FetcherSelect net) s2 = Some (s2\<lparr>fetcher := FetcherExited\<rparr>)"
      using a(2) by simp
    from s a go stop
    show "\<exists>s2. step checkMsg toJSMsg FetcherSend s1 = Some s2 \<and>
                  errs s2 = [err] \<and> fetcher s2 = AtSelect \<and>
                  (\<forall>net s3. \<not> cancelled s2 \<longrightarrow>
                     step checkMsg toJSMsg (FetcherSelect net) s2 = Some s3 \<longrightarrow>
                     fetcher s3 \<noteq> FetcherExited) \<and>
                  (\<forall>net. cancelled s2 \<longrightarrow>
                     step checkMsg toJSMsg (FetcherSelect net) s2 =
                       Some (s2\<lparr>fetcher := FetcherExited\<rparr>))"
      by blast
  qed
  from empty full show ?thesis by blast
qed

text \<open>
  Claim C9, amended. However a \<^verbatim>\<open>fetch\<close> of the fetch loop ends with an error
  (at \<^verbatim>\<open>SubscribeSync\<close>, at \<^verbatim>\<open>PublishRequest\<close>, at a receive or at \<^verbatim>\<open>checkMsg\<close>),
  the mutex is released, and an error that is \<open>ErrNoMessages\<close> or \<open>ErrTimeout\<close>
  takes the loop back to its select with \<^verbatim>\<open>errs\<close> as it was, while any other
  error takes it to the send of that error on \<^verbatim>\<open>errs\<close>. With \<^verbatim>\<open>errs\<close> empty the
  send completes at once and the loop is back at its select, from where it
  returns only if the context is cancelled and goes on otherwise; with an earlier
  error still on \<^verbatim>\<open>errs\<close> the send has to wait for the dispatch goroutine.
\<close>

theorem hard_error_forwarded:
  fixes toJSMsg :: "'m \<Rightarrow> 'j" and s :: "'j streaming"
  assumes "(\<exists>net c tr. a = FetcherSelect net \<and> fetcher s = AtSelect \<and> \<not> cancelled s \<and>
                int (length (pending s)) < sint (Batch (request s)) \<and>
                fetch_open net (consumer s) (request s) = (Some (Returned (Some err)), c, tr)) \<or>
           (\<exists>r count. a = FetcherReceive r \<and> fetcher s = Receiving count \<and>
                classify checkMsg toJSMsg r = Fail err)"
  shows "\<exists>s1. step checkMsg toJSMsg a s = Some s1 \<and> errs s1 = errs s \<and>
           \<not> locked (consumer s1) \<and>
           (errors_Is err ErrNoMessages \<or> errors_Is err ErrTimeout \<longrightarrow> fetcher s1 = AtSelect) \<and>
           (\<not> errors_Is err ErrNoMessages \<and> \<not> errors_Is err ErrTimeout \<longrightarrow>
              fetcher s1 = SendingErr err \<and>
              (errs s = [] \<longrightarrow>
                 (\<exists>s2. step checkMsg toJSMsg FetcherSend s1 = Some s2 \<and>
                       errs s2 = [err] \<and> fetcher s2 = AtSelect \<and>
                       (\<forall>net s3. \<not> cancelled s2 \<longrightarrow>
                          step checkMsg toJSMsg (FetcherSelect net) s2 = Some s3 \<longrightarrow>
                          fetcher s3 \<noteq> FetcherExited) \<and>
                       (\<forall>net. cancelled s2 \<longrightarrow>
                          step checkMsg toJSMsg (FetcherSelect net) s2 =
                            Some (s2\<lparr>fetcher := FetcherExited\<rparr>)))) \<and>
              (errs s \<noteq> [] \<longrightarrow> step checkMsg toJSMsg FetcherSend s1 = None))"
proof -
  obtain s1 where st: "step checkMsg toJSMsg a s = Some s1"
    and e1: "errs s1 = errs s" and f1: "fetcher s1 = after_fetch (Some err)"
    and l1: "\<not> locked (consumer s1)"
    using assms
  proof (elim disjE exE conjE)
    fix net c tr
    assume h: "a = FetcherSelect net" "fetcher s = AtSelect" "\<not> cancelled s"
      "int (length (pending s)) < sint (Batch (request s))"
      "fetch_open net (consumer s) (request s) = (Some (Returned (Some err)), c, tr)"
    assume that: "\<And>s1. step checkMsg toJSMsg a s = Some s1 \<Longrightarrow> errs s1 = errs s \<Longrightarrow>
                    fetcher s1 = after_fetch (Some err) \<Longrightarrow> \<not> locked (consumer s1) \<Longrightarrow> thesis"
    from h(4,5) have "\<not> locked c"
      by (auto simp: fetch_open_def Let_def split: if_splits option.splits sum.splits prod.splits)
    with h show thesis
      by (intro that[of "s\<lparr>consumer := c, fetcher := after_fetch (Some err)\<rparr>"]) simp_all
  next
    fix r count
    assume h: "a = FetcherReceive r" "fetcher s = Receiving count"
      "classify checkMsg toJSMsg r = Fail err"
    assume that: "\<And>s1. step checkMsg toJSMsg a s = Some s1 \<Longrightarrow> errs s1 = errs s \<Longrightarrow>
                    fetcher s1 = after_fetch (Some err) \<Longrightarrow> \<not> locked (consumer s1) \<Longrightarrow> thesis"
    from h show thesis
      by (intro that[of "s\<lparr>consumer := (consumer s)\<lparr>locked := False\<rparr>,
                           fetcher := after_fetch (Some err)\<rparr>"]) simp_all
  qed
  have soft: "errors_Is err ErrNoMessages \<or> errors_Is err ErrTimeout \<longrightarrow> fetcher s1 = AtSelect"
    using f1 by (auto simp: after_fetch_def)
  have hard: "\<not> errors_Is err ErrNoMessages \<and> \<not> errors_Is err ErrTimeout \<longrightarrow>
                fetcher s1 = SendingErr err"
    using f1 by (simp add: after_fetch_def)
  show ?thesis
  proof (cases "\<not> errors_Is err ErrNoMessages \<and> \<not> errors_Is err ErrTimeout")
    case True
    with hard have f: "fetcher s1 = SendingErr err" by blast
    from errs_send[OF f, of checkMsg toJSMsg] st e1 l1 soft f True show ?thesis
      by (intro exI[of _ s1]) simp
  next
    case False
    with st e1 l1 soft show ?thesis by (intro exI[of _ s1]) auto
  qed
qed

theorem hard_error_forwarded_witness:
  "fetcher started = AtSelect \<and> \<not> cancelled started \<and>
   int (length (pending started)) < sint (Batch (request started)) \<and>
   fetch_open closed (consumer started) (request started) =
     (Some (Returned (Some (TransportError ''connection closed''))), busy\<lparr>locked := False\<rparr>,
      [Lock, SubscribeSync ''_INBOX.1'',
       PublishRequest ''ORDERS'' ''worker'' ''_INBOX.1''
         [(''expires'', JInt 30000000000), (''batch'', JInt 2),
          (''idle_heartbeat'', JInt 50000000)],
       Unlock]) \<and>
   \<not> errors_Is (TransportError ''connection closed'') ErrNoMessages \<and>
   \<not> errors_Is (TransportError ''connection closed'') ErrTimeout \<and>
   step checkMsg_status id (FetcherSelect closed) started =
     Some (started\<lparr>consumer := busy\<lparr>locked := False\<rparr>,
                    fetcher := SendingErr (TransportError ''connection closed'')\<rparr>) \<and>
   step checkMsg_status id FetcherSend
     (started\<lparr>consumer := busy\<lparr>locked := False\<rparr>,
               fetcher := SendingErr (TransportError ''connection closed'')\<rparr>) = Some failing \<and>
   fetcher (started\<lparr>consumer := busy, fetcher := Receiving 0\<rparr>) = Receiving 0 \<and>
   classify checkMsg_status id (Inr (BadRequest ''no stream'')) =
     (Fail (TransportError ''no stream'') :: natsMsg reply) \<and>
   step checkMsg_status id (FetcherReceive (Inr (BadRequest ''no stream'')))
     (started\<lparr>consumer := busy, fetcher := Receiving 0\<rparr>) =
     Some (started\<lparr>consumer := busy\<lparr>locked := False\<rparr>,
                    fetcher := SendingErr (TransportError ''no stream'')\<rparr>)"
proof -
  let ?e = "TransportError ''connection closed''"
  let ?s1 = "started\<lparr>consumer := busy\<lparr>locked := False\<rparr>, fetcher := SendingErr ?e\<rparr>"
  have a1: "fetcher started = AtSelect" "\<not> cancelled started"
    "int (length (pending started)) < sint (Batch (request started))"
    by (simp_all add: started_def)
  have op: "fetch_open closed (consumer started) (request started) =
     (Some (Returned (Some ?e)), busy\<lparr>locked := False\<rparr>,
      [Lock, SubscribeSync ''_INBOX.1'',
       PublishRequest ''ORDERS'' ''worker'' ''_INBOX.1''
         [(''expires'', JInt 30000000000), (''batch'', JInt 2),
          (''idle_heartbeat'', JInt 50000000)],
       Unlock])"
    by (simp add: started_def busy_def idle_def closed_def broker_def fetch_open_def marshal_def
        Second_def Millisecond_def)
  have n: "\<not> errors_Is ?e ErrNoMessages" "\<not> errors_Is ?e ErrTimeout" by simp_all
  have em: "errs started = []" by (simp add: started_def)
  have st: "step checkMsg_status id (FetcherSelect closed) started = Some ?s1"
    using a1 op by (simp add: after_fetch_def)
  have pre1: "(\<exists>net c tr. FetcherSelect closed = FetcherSelect net \<and> fetcher started = AtSelect \<and>
                 \<not> cancelled started \<and>
                 int (length (pending started)) < sint (Batch (request started)) \<and>
                 fetch_open net (consumer started) (request started) =
                   (Some (Returned (Some ?e)), c, tr)) \<or>
              (\<exists>r count. FetcherSelect closed = FetcherReceive r \<and>
                 fetcher started = Receiving count \<and>
                 classify checkMsg_status id r = (Fail ?e :: natsMsg reply))"
    using a1 op by blast
  from hard_error_forwarded[OF pre1] st n em
  obtain s2 where "step checkMsg_status id FetcherSend ?s1 = Some s2"
    and "errs s2 = [?e]" and "fetcher s2 = AtSelect"
    by auto
  then have snd: "step checkMsg_status id FetcherSend ?s1 = Some failing"
    by (auto simp: started_def failing_def split: if_splits)
  let ?r = "started\<lparr>consumer := busy, fetcher := Receiving 0\<rparr>"
  let ?e2 = "TransportError ''no stream''"
  have f: "fetcher ?r = Receiving 0" by simp
  have c: "classify checkMsg_status id (Inr (BadRequest ''no stream'')) =
             (Fail ?e2 :: natsMsg reply)"
    by (simp add: classify_def)
  have pre2: "(\<exists>net c tr. FetcherReceive (Inr (BadRequest ''no stream'')) = FetcherSelect net \<and>
                 fetcher ?r = AtSelect \<and> \<not> cancelled ?r \<and>
                 int (length (pending ?r)) < sint (Batch (request ?r)) \<and>
                 fetch_open net (consumer ?r) (request ?r) =
                   (Some (Returned (Some ?e2)), c, tr)) \<or>
              (\<exists>r count. FetcherReceive (Inr (BadRequest ''no stream'')) = FetcherReceive r \<and>
                 fetcher ?r = Receiving count \<and>
                 classify checkMsg_status id r = (Fail ?e2 :: natsMsg reply))"
    using f c by blast
  from hard_error_forwarded[OF pre2]
  obtain s1 where r1: "step checkMsg_status id (FetcherReceive (Inr (BadRequest ''no stream''))) ?r
                        = Some s1"
    and "fetcher s1 = SendingErr ?e2"
    by auto
  then have rcv: "step checkMsg_status id (FetcherReceive (Inr (BadRequest ''no stream''))) ?r =
     Some (started\<lparr>consumer := busy\<lparr>locked := False\<rparr>, fetcher := SendingErr ?e2\<rparr>)"
    by (auto simp: started_def classify_def after_fetch_def)
  from a1 op n st snd f c rcv show ?thesis by blast
qed

section \<open>Loss of the heartbeat in Stream\<close>

text \<open>
  What the dispatch goroutine does when its timer fires and the mutex is free
  at the teardown: one call of the handler with \<open>ErrNoHeartbeat\<close>, the context
  cancelled, the subscription dropped, the flag cleared, the goroutine gone.
\<close>

lemma heartbeat_loss_teardown:
  assumes "dispatcher s = Selecting" and "Heartbeat (request s) \<noteq> 0"
    and "\<not> locked (consumer s)"
  shows "run checkMsg toJSMsg [TimerFires, DispatcherCancel, DispatcherTeardown] s =
           Some (s\<lparr>handled := handled s @ [(None, Some ErrNoHeartbeat)],
                   cancelled := True,
                   consumer := (consumer s)\<lparr>subscription := None, isStreaming := 0\<rparr>,
                   dispatcher := DispatcherExited\<rparr>)"
  using assms by (simp add: Stream_teardown_def drop_subscription_def)

text \<open>The run that ends in the stuck state, and the steps from there.\<close>

lemma stuck_run:
  "run checkMsg_status id
     [FetcherSelect (broker []), TimerFires, FetcherReceive (Inr IdleHeartbeat), DispatcherCancel]
     started = Some stuck"
  by (simp add: stuck_def started_def busy_def idle_def broker_def fetch_open_def classify_def
      Millisecond_def)

lemma stuck_step: "step checkMsg_status id a stuck = None \<or> step checkMsg_status id a stuck = Some stuck"
  by (cases a)
     (simp_all add: stuck_def started_def busy_def idle_def Stream_teardown_def
        drop_subscription_def)

text \<open>
  Claim C3 on the code. The timer of the dispatch goroutine fires while \<^verbatim>\<open>fetch\<close>
  waits for replies, and the handler is called with \<open>ErrNoHeartbeat\<close>. Before
  \<^verbatim>\<open>cancel()\<close> is called a heartbeat reply reaches \<^verbatim>\<open>fetch\<close>, which goes to send
  on the unbuffered heartbeat channel, holding the mutex. The dispatch goroutine
  cancels the context and goes to \<^verbatim>\<open>p.Lock()\<close>. No step changes the state from
  there on: the subscription stays, the streaming flag stays set, \<^verbatim>\<open>Stream\<close>
  is rejected as busy and \<^verbatim>\<open>Next\<close> waits for the mutex.
\<close>

theorem heartbeat_loss_deadlock:
  "run checkMsg_status id
     [FetcherSelect (broker []), TimerFires, FetcherReceive (Inr IdleHeartbeat), DispatcherCancel]
     started = Some stuck \<and>
   handled stuck = [(None, Some ErrNoHeartbeat)] \<and>
   cancelled stuck \<and>
   (\<forall>a. step checkMsg_status id a stuck = None \<or> step checkMsg_status id a stuck = Some stuck) \<and>
   subscription (consumer stuck) = Some \<lparr>Subject = ''_INBOX.1''\<rparr> \<and>
   isStreaming (consumer stuck) = 1 \<and>
   (Stream True [] 2 (consumer stuck)
      :: (error + natsMsg streaming) outcome \<times> pullConsumer \<times> effect list) =
     (Returned (Inl ErrConsumerHasActiveSubscription), consumer stuck, [LoadStreaming]) \<and>
   (\<forall>timer. Next checkMsg_status id \<lparr>untilDeadline = None\<rparr> [] 2 (broker [UserMsg ''a''])
              timer (consumer stuck) = (Blocked, consumer stuck, []))"
proof -
  have "\<forall>a. step checkMsg_status id a stuck = None \<or> step checkMsg_status id a stuck = Some stuck"
    using stuck_step by blast
  moreover have "handled stuck = [(None, Some ErrNoHeartbeat)]" "cancelled stuck"
    "subscription (consumer stuck) = Some \<lparr>Subject = ''_INBOX.1''\<rparr>"
    "isStreaming (consumer stuck) = 1"
    by (simp_all add: stuck_def busy_def)
  moreover have "(Stream True [] 2 (consumer stuck)
      :: (error + natsMsg streaming) outcome \<times> pullConsumer \<times> effect list) =
     (Returned (Inl ErrConsumerHasActiveSubscription), consumer stuck, [LoadStreaming])"
    by (simp add: Stream_def stuck_def busy_def)
  moreover have "\<forall>timer. Next checkMsg_status id \<lparr>untilDeadline = None\<rparr> [] 2
                      (broker [UserMsg ''a'']) timer (consumer stuck) =
                    (Blocked, consumer stuck, [])"
    by (simp add: Next_def Next_prepare_def stuck_def busy_def)
  ultimately show ?thesis using stuck_run by blast
qed

end
